theory Spec2Isabelle
  imports Complex_Main "HOL-Library.Sublist"
begin

section \<open>Ensemble selection of gama/utilities/auto\_ensemble.py\<close>

text \<open>
  Numbers are exact: every numpy entry and every metric value is a rational, so that
  the arithmetic of the source is read without rounding, NaN or infinities. The two
  infinite start values of \<open>best_addition_score\<close> are constructors of their own.
  An array of predictions is a matrix, a list of rows. Dividing an array by zero gives
  numpy's infinities and NaN, which the model does not have: the properties below are
  stated where the divisor, a total weight, is not zero.
\<close>

subsection \<open>Arrays\<close>

type_synonym matrix = "rat list list"

definition mscale :: "matrix \<Rightarrow> int \<Rightarrow> matrix" where
  \<comment> \<open>\<open>predictions * weight\<close>\<close>
  "mscale m w = map (map (\<lambda>x. x * of_int w)) m"

definition mdiv :: "matrix \<Rightarrow> int \<Rightarrow> matrix" where
  \<comment> \<open>\<open>array / k\<close> for an integer \<open>k\<close>\<close>
  "mdiv m k = map (map (\<lambda>x. x / of_int k)) m"

definition madd :: "matrix \<Rightarrow> matrix \<Rightarrow> matrix" where
  "madd a b = map2 (map2 (+)) a b"

definition msub :: "matrix \<Rightarrow> matrix \<Rightarrow> matrix" where
  "msub a b = map2 (map2 (-)) a b"

definition same_shape :: "matrix \<Rightarrow> matrix \<Rightarrow> bool" where
  "same_shape a b = (map length a = map length b)"

subsection \<open>Errors\<close>

datatype error =
    ValueError | UnboundLocalError | AttributeError | TypeError | IndexError
  | RuntimeError | OSError | UnpicklingError

fun stack_sum :: "matrix list \<Rightarrow> error + matrix" where
  \<comment> \<open>\<open>np.sum(np.stack(ms), axis=0)\<close>: stacking no array, or arrays of different
      shapes, is a ValueError\<close>
  "stack_sum [] = Inl ValueError"
| "stack_sum (m # ms) =
     (if \<forall>k \<in> set ms. same_shape k m then Inr (foldl madd m ms) else Inl ValueError)"

subsection \<open>Model records and the weighted model set\<close>

record 'p model =
  name :: string
  pipeline :: 'p
  predictions :: matrix
  validation_score :: rat

text \<open>
  \<open>self._models\<close> is a dict from pipeline to (model, weight). A dict keeps its keys
  in insertion order, and \<open>values()\<close> is read in that order, so the dict is an
  association list with one entry per key.
\<close>

type_synonym 'p wms = "('p \<times> ('p model \<times> int)) list"

definition dict_values :: "('k \<times> 'v) list \<Rightarrow> 'v list" where
  "dict_values d = map snd d"

definition dict_pop :: "('k \<times> 'v) list \<Rightarrow> 'k \<Rightarrow> 'v \<Rightarrow> 'v \<times> ('k \<times> 'v) list" where
  \<comment> \<open>\<open>d.pop(k, default)\<close>: the value and the dict without the key\<close>
  "dict_pop d k dflt =
     (case map_of d k of None \<Rightarrow> (dflt, d)
      | Some v \<Rightarrow> (v, filter (\<lambda>kv. fst kv \<noteq> k) d))"

definition dict_set :: "('k \<times> 'v) list \<Rightarrow> 'k \<Rightarrow> 'v \<Rightarrow> ('k \<times> 'v) list" where
  \<comment> \<open>\<open>d[k] = v\<close>: an existing key keeps its place, a new one goes last\<close>
  "dict_set d k v =
     (if k \<in> fst ` set d then map (\<lambda>kv. if fst kv = k then (k, v) else kv) d
      else d @ [(k, v)])"

definition total_model_weights :: "'p wms \<Rightarrow> int" where
  "total_model_weights ms = sum_list (map snd (dict_values ms))"

definition averaged_validation_predictions :: "'p wms \<Rightarrow> error + matrix" where
  "averaged_validation_predictions ms =
     (case stack_sum (map (\<lambda>(m, w). mscale (predictions m) w) (dict_values ms)) of
        Inl e \<Rightarrow> Inl e
      | Inr s \<Rightarrow> Inr (mdiv s (total_model_weights ms)))"

definition add_model :: "'p wms \<Rightarrow> 'p model \<Rightarrow> int \<Rightarrow> 'p wms" where
  \<comment> \<open>\<open>_add_model(model, add_weight)\<close>: the model already stored under the pipeline is
      the one kept\<close>
  "add_model ms m add_weight =
     (case dict_pop ms (pipeline m) (m, 0) of
        ((m', weight), ms') \<Rightarrow> dict_set ms' (pipeline m') (m', weight + add_weight))"

definition keyed :: "'p wms \<Rightarrow> bool" where
  \<comment> \<open>a dict has one entry per key; here each entry is stored under the pipeline of
      its model\<close>
  "keyed ms = (distinct (map fst ms) \<and> list_all (\<lambda>(k, (m, w)). k = pipeline m) ms)"

definition wms_inv :: "'p wms \<Rightarrow> bool" where
  \<comment> \<open>the weighted model set of the data model: one entry per pipeline, with a weight
      of at least 1\<close>
  "wms_inv ms = (keyed ms \<and> list_all (\<lambda>(k, (m, w)). 1 \<le> w) ms)"

definition weight_of :: "'p wms \<Rightarrow> 'p \<Rightarrow> int" where
  \<comment> \<open>the weight of a pipeline in the set, 0 when it is absent\<close>
  "weight_of ms p = (case map_of ms p of None \<Rightarrow> 0 | Some (m, k) \<Rightarrow> k)"

definition online_update :: "matrix \<Rightarrow> int \<Rightarrow> matrix \<Rightarrow> matrix" where
  \<comment> \<open>\<open>current_weighted_average + (model.predictions - current_weighted_average) /
      (current_total_weight + 1)\<close>\<close>
  "online_update avg W p = madd avg (mdiv (msub p avg) (W + 1))"

subsection \<open>The metric and the ensemble object\<close>

text \<open>
  Modelled from the spec: the \<open>Metric\<close> named tuple and \<open>evaluate\<close> of
  gama/ea/evaluation.py are not part of the sources read here. A metric has a name, a
  scoring function (a handle, or \<open>None\<close> once stripped) and, as the rest of the tuple,
  the flags \<open>is_classification\<close> and \<open>is_regression\<close>;
  \<open>evaluate(metric, y_true, predictions)\<close> is a parameter \<open>ev\<close> of every
  function that calls it.
\<close>

datatype metric = Metric (metric_name: string) (metric_fn: "nat option")
  (is_classification: bool) (is_regression: bool)

type_synonym evaluate = "metric \<Rightarrow> rat list \<Rightarrow> matrix \<Rightarrow> rat"

datatype ('p, 'l) ensemble = Ensemble
  (self_metric: metric)
  (self_model_library_directory: "string option")
  (self_model_library: "'p model list option")
  (self_shrink_on_pickle: bool)
  (self_n_jobs: int)
  (self_y_true: "rat list")
  (self_label_encoder: "'l option")
  (self_fit_models: "('p \<times> int) list option")
  (self_maximize: bool)
  (self_child_ensembles: "('p, 'l) ensemble list option")
  (self_child_ensemble_model_fraction: rat)
  (self_models: "'p wms option")

fun set_metric :: "('p, 'l) ensemble \<Rightarrow> metric \<Rightarrow> ('p, 'l) ensemble" where
  "set_metric (Ensemble me di li sh nj yt le fm mx ch fr ms) v =
     Ensemble v di li sh nj yt le fm mx ch fr ms"

fun set_model_library :: "('p, 'l) ensemble \<Rightarrow> 'p model list option \<Rightarrow> ('p, 'l) ensemble" where
  "set_model_library (Ensemble me di li sh nj yt le fm mx ch fr ms) v =
     Ensemble me di v sh nj yt le fm mx ch fr ms"

fun set_child_ensembles ::
  "('p, 'l) ensemble \<Rightarrow> ('p, 'l) ensemble list option \<Rightarrow> ('p, 'l) ensemble" where
  "set_child_ensembles (Ensemble me di li sh nj yt le fm mx ch fr ms) v =
     Ensemble me di li sh nj yt le fm mx v fr ms"

fun set_models :: "('p, 'l) ensemble \<Rightarrow> 'p wms option \<Rightarrow> ('p, 'l) ensemble" where
  "set_models (Ensemble me di li sh nj yt le fm mx ch fr ms) v =
     Ensemble me di li sh nj yt le fm mx ch fr v"

definition init ::
  "metric \<Rightarrow> rat list \<Rightarrow> 'p model list option \<Rightarrow> string option \<Rightarrow> error + ('p, 'l) ensemble" where
  \<comment> \<open>\<open>__init__\<close> with the defaults of the other arguments, as \<open>build_\<close> calls it:
      the metric is a \<open>Metric\<close> already, not a string, and the warning for a library
      given together with a directory is not kept, \<open>build_\<close> giving no directory\<close>
  "init me yt library directory =
     (if library = None \<and> directory = None then Inl ValueError
      else Inr (Ensemble me directory (case library of None \<Rightarrow> Some [] | Some l \<Rightarrow> Some l)
                  True 1 yt None None True (Some []) (3 / 10) (Some [])))"

subsection \<open>Loading the library from a directory\<close>

text \<open>
  A directory is the list \<open>os.listdir\<close> returns, each file with its name, its size and
  what \<open>pickle.load\<close> reads from it (\<open>None\<close> when unpickling raises). The three local
  variables \<open>pl\<close>, \<open>predictions\<close> and \<open>score\<close> are one optional triple, unbound at
  first, that lives across the iterations of the loop.
\<close>

record 'p dir_entry =
  file_name :: string
  st_size :: nat
  pickled :: "('p \<times> matrix \<times> rat) option"

fun argmax_from :: "rat list \<Rightarrow> nat \<Rightarrow> rat \<Rightarrow> nat \<Rightarrow> nat" where
  \<comment> \<open>position of the first largest entry; \<open>argmax_from xs i b j\<close> has seen the best
      value \<open>b\<close> at position \<open>i\<close> and reads position \<open>j\<close> next\<close>
  "argmax_from [] i b j = i"
| "argmax_from (x # xs) i b j =
     (if b < x then argmax_from xs j x (Suc j) else argmax_from xs i b (Suc j))"

definition indicator_row :: "rat list \<Rightarrow> error + rat list" where
  \<comment> \<open>a row of zeros with a one at the row's argmax; the argmax of an empty row raises\<close>
  "indicator_row r =
     (case r of [] \<Rightarrow> Inl ValueError
      | x # xs \<Rightarrow> Inr ((replicate (length r) 0)[argmax_from xs 0 x 1 := 1]))"

fun indicator_rows :: "matrix \<Rightarrow> error + matrix" where
  "indicator_rows [] = Inr []"
| "indicator_rows (r # rs) =
     (case indicator_row r of Inl e \<Rightarrow> Inl e
      | Inr r' \<Rightarrow> (case indicator_rows rs of Inl e \<Rightarrow> Inl e | Inr rs' \<Rightarrow> Inr (r' # rs')))"

fun load_loop ::
  "('p \<Rightarrow> string) \<Rightarrow> bool \<Rightarrow> 'p dir_entry list \<Rightarrow> ('p \<times> matrix \<times> rat) option \<Rightarrow> 'p model list
     \<Rightarrow> error + 'p model list" where
  "load_loop str_of argmax_pred [] cur models = Inr models"
| "load_loop str_of argmax_pred (f # fs) cur models =
     (if suffix ''.pkl'' (file_name f) then
        (case (if 0 < st_size f then
                 (case pickled f of None \<Rightarrow> Inl UnpicklingError
                  | Some (pl, preds, score) \<Rightarrow>
                      if argmax_pred then
                        (case indicator_rows preds of Inl e \<Rightarrow> Inl e
                         | Inr ind \<Rightarrow> Inr (Some (pl, ind, score)))
                      else Inr (Some (pl, preds, score)))
               else Inr cur) of
           Inl e \<Rightarrow> Inl e
         | Inr None \<Rightarrow> Inl UnboundLocalError
         | Inr (Some (pl, preds, score)) \<Rightarrow>
             load_loop str_of argmax_pred fs (Some (pl, preds, score))
               (models @ [\<lparr>name = str_of pl, pipeline = pl, predictions = preds,
                            validation_score = score\<rparr>]))
      else load_loop str_of argmax_pred fs cur models)"

definition load_predictions ::
  "('p \<Rightarrow> string) \<Rightarrow> 'p dir_entry list \<Rightarrow> bool \<Rightarrow> error + 'p model list" where
  \<comment> \<open>\<open>str_of\<close> is \<open>str\<close> on pipelines\<close>
  "load_predictions str_of cache_dir argmax_pred = load_loop str_of argmax_pred cache_dir None []"

subsection \<open>The world around an ensemble\<close>

text \<open>
  What the methods read from outside the object: the directories on disk
  (\<open>os.listdir\<close>, \<open>None\<close> when it raises; a directory argument of \<open>None\<close> is the
  current directory), \<open>str\<close> on pipelines, \<open>evaluate\<close>, and the draws of
  \<open>np.random.choice(range(k), size, replace=False)\<close>, one per round of \<open>build_\<close>.
  The records handed to the module's logger are a list that every method extends.
\<close>

record 'p world =
  listdir :: "string option \<Rightarrow> 'p dir_entry list option"
  str_of :: "'p \<Rightarrow> string"
  ev :: evaluate
  random_choice :: "nat \<Rightarrow> nat \<Rightarrow> nat \<Rightarrow> nat list"

datatype score = NegInf | Fin rat | PosInf

fun score_less :: "score \<Rightarrow> score \<Rightarrow> bool" where
  "score_less NegInf NegInf = False"
| "score_less NegInf _ = True"
| "score_less (Fin a) (Fin b) = (a < b)"
| "score_less (Fin a) PosInf = True"
| "score_less _ _ = False"

datatype log_record =
    Debug_loading_library
  | Debug_constructing_ensemble nat int
  | Warning_overwriting_ensemble
  | Info_assigned_weight int string
  | Debug_initial_ensemble_score rat
  | Debug_ensemble_size int score
  | Info_shrinking_before_pickle

type_synonym ('p, 'l) state = "('p, 'l) ensemble \<times> log_record list"

definition model_library ::
  "'p world \<Rightarrow> ('p, 'l) state \<Rightarrow> error + ('p model list \<times> ('p, 'l) state)" where
  \<comment> \<open>the property: \<open>not self._model_library\<close> holds of \<open>None\<close> and of the empty list\<close>
  "model_library w st =
     (case st of (e, lg) \<Rightarrow>
        (case self_model_library e of
           Some (m # lib) \<Rightarrow> Inr (m # lib, st)
         | _ \<Rightarrow>
            (case listdir w (self_model_library_directory e) of
               None \<Rightarrow> Inl OSError
             | Some d \<Rightarrow>
                (case load_predictions (str_of w) d False of
                   Inl er \<Rightarrow> Inl er
                 | Inr lib \<Rightarrow>
                     Inr (lib, (set_model_library e (Some lib),
                                lg @ [Debug_loading_library]))))))"

definition add_model_self ::
  "('p, 'l) state \<Rightarrow> 'p model \<Rightarrow> int \<Rightarrow> error + ('p, 'l) state" where
  \<comment> \<open>\<open>self._add_model(model, add_weight)\<close> on the object: \<open>None.pop\<close> is an AttributeError\<close>
  "add_model_self st m add_weight =
     (case st of (e, lg) \<Rightarrow>
        (case self_models e of
           None \<Rightarrow> Inl AttributeError
         | Some ms \<Rightarrow>
            (let (m', weight) = fst (dict_pop ms (pipeline m) (m, 0))
             in Inr (set_models e (Some (add_model ms m add_weight)),
                     lg @ [Info_assigned_weight (weight + add_weight) (name m')]))))"

fun add_each :: "('p, 'l) state \<Rightarrow> ('p model \<times> int) list \<Rightarrow> error + ('p, 'l) state" where
  \<comment> \<open>\<open>for (model, weight) in pairs: self._add_model(model, weight)\<close>\<close>
  "add_each st [] = Inr st"
| "add_each st ((m, k) # rest) =
     (case add_model_self st m k of Inl er \<Rightarrow> Inl er | Inr st' \<Rightarrow> add_each st' rest)"

definition averaged_self :: "('p, 'l) ensemble \<Rightarrow> error + matrix" where
  "averaged_self e =
     (case self_models e of None \<Rightarrow> Inl AttributeError
      | Some ms \<Rightarrow> averaged_validation_predictions ms)"

definition build_initial_ensemble ::
  "'p world \<Rightarrow> ('p, 'l) state \<Rightarrow> int \<Rightarrow> error + ('p, 'l) state" where
  "build_initial_ensemble w st n =
     (if \<not> n > 0 then Inl ValueError
      else
        (let st1 = (case st of (e, lg) \<Rightarrow>
                     (case self_models e of
                        Some (x # xs) \<Rightarrow>
                          (set_models e (Some []), lg @ [Warning_overwriting_ensemble])
                      | _ \<Rightarrow> st))
         in (case model_library w st1 of
               Inl er \<Rightarrow> Inl er
             | Inr (lib, st2) \<Rightarrow>
                (let key = (\<lambda>m. ev w (self_metric (fst st2)) (self_y_true (fst st2))
                                   (predictions m));
                     sorted_ensembles = sort_key key lib;
                     sorted_ensembles = (if self_maximize (fst st2) then rev sorted_ensembles
                                         else sorted_ensembles);
                     selected_models = take (nat n) sorted_ensembles
                 in (case add_each st2 (map (\<lambda>m. (m, 1)) selected_models) of
                       Inl er \<Rightarrow> Inl er
                     | Inr (e3, lg3) \<Rightarrow>
                        (case averaged_self e3 of
                           Inl er \<Rightarrow> Inl er
                         | Inr avg \<Rightarrow>
                             Inr (e3, lg3 @ [Debug_initial_ensemble_score
                                    (ev w (self_metric e3) (self_y_true e3) avg)])))))))"

subsection \<open>Stepwise addition\<close>

text \<open>
  The inner loop of \<open>add_models\<close> over the library. \<open>best_addition\<close> is a local
  variable of the method: it is unbound when the method starts and keeps its value from
  one round of the outer loop to the next. Arrays of different shapes are a ValueError
  (broadcasting between different shapes is not modelled).
\<close>

fun scan_library ::
  "'p world \<Rightarrow> ('p, 'l) ensemble \<Rightarrow> matrix \<Rightarrow> int \<Rightarrow> 'p model list
     \<Rightarrow> 'p model option \<times> score \<Rightarrow> error + ('p model option \<times> score)" where
  "scan_library w e avg W [] acc = Inr acc"
| "scan_library w e avg W (m # lib) (best_addition, best_addition_score) =
     (if validation_score m = 0 then
        scan_library w e avg W lib (best_addition, best_addition_score)
      else if \<not> same_shape (predictions m) avg then Inl ValueError
      else
        (let candidate_pred = online_update avg W (predictions m);
             candidate_ensemble_score = Fin (ev w (self_metric e) (self_y_true e) candidate_pred)
         in if (self_maximize e \<and> score_less best_addition_score candidate_ensemble_score) \<or>
               (\<not> self_maximize e \<and> score_less candidate_ensemble_score best_addition_score)
            then scan_library w e avg W lib (Some m, candidate_ensemble_score)
            else scan_library w e avg W lib (best_addition, best_addition_score)))"

definition step_add ::
  "'p world \<Rightarrow> ('p, 'l) state \<Rightarrow> 'p model option
     \<Rightarrow> error + (('p, 'l) state \<times> 'p model option)" where
  \<comment> \<open>one round of the outer loop of \<open>add_models\<close>\<close>
  "step_add w st best_addition =
     (case averaged_self (fst st) of
        Inl er \<Rightarrow> Inl er
      | Inr current_weighted_average \<Rightarrow>
         (let current_total_weight = total_model_weights (the (self_models (fst st)))
          in (case model_library w st of
                Inl er \<Rightarrow> Inl er
              | Inr (lib, st1) \<Rightarrow>
                 (case scan_library w (fst st1) current_weighted_average current_total_weight lib
                         (best_addition, if self_maximize (fst st1) then NegInf else PosInf) of
                    Inl er \<Rightarrow> Inl er
                  | Inr (None, sc) \<Rightarrow> Inl UnboundLocalError
                  | Inr (Some m, sc) \<Rightarrow>
                     (case add_model_self st1 m 1 of
                        Inl er \<Rightarrow> Inl er
                      | Inr (e2, lg2) \<Rightarrow>
                          Inr ((e2, lg2 @ [Debug_ensemble_size
                                  (total_model_weights (the (self_models e2))) sc]),
                               Some m))))))"

fun add_models_loop ::
  "'p world \<Rightarrow> nat \<Rightarrow> ('p, 'l) state \<Rightarrow> 'p model option \<Rightarrow> error + ('p, 'l) state" where
  "add_models_loop w 0 st best_addition = Inr st"
| "add_models_loop w (Suc k) st best_addition =
     (case step_add w st best_addition of
        Inl er \<Rightarrow> Inl er
      | Inr (st', best_addition') \<Rightarrow> add_models_loop w k st' best_addition')"

definition add_models :: "'p world \<Rightarrow> ('p, 'l) state \<Rightarrow> int \<Rightarrow> error + ('p, 'l) state" where
  "add_models w st n =
     (if \<not> n > 0 then Inl ValueError else add_models_loop w (nat n) st None)"

subsection \<open>Bagging\<close>

fun fetch_subset ::
  "'p world \<Rightarrow> ('p, 'l) state \<Rightarrow> nat list \<Rightarrow> error + ('p model list \<times> ('p, 'l) state)" where
  \<comment> \<open>\<open>[self.model_library[idx] for idx in model_subset_indices]\<close>\<close>
  "fetch_subset w st [] = Inr ([], st)"
| "fetch_subset w st (idx # rest) =
     (case model_library w st of
        Inl er \<Rightarrow> Inl er
      | Inr (lib, st1) \<Rightarrow>
         (if idx < length lib then
            (case fetch_subset w st1 rest of
               Inl er \<Rightarrow> Inl er
             | Inr (ms, st2) \<Rightarrow> Inr (lib ! idx # ms, st2))
          else Inl IndexError))"

definition py_int :: "rat \<Rightarrow> int" where
  \<comment> \<open>\<open>int(x)\<close> rounds towards zero\<close>
  "py_int x = (if 0 \<le> x then \<lfloor>x\<rfloor> else \<lceil>x\<rceil>)"

definition build_round ::
  "'p world \<Rightarrow> int \<Rightarrow> int \<Rightarrow> int \<Rightarrow> ('p, 'l) state \<Rightarrow> nat \<Rightarrow> error + ('p, 'l) state" where
  \<comment> \<open>the body of the first loop of \<open>build_\<close>, for round \<open>i\<close>; a draw of more indices
      than there are, or of a negative number of them, is a ValueError\<close>
  "build_round w n_ensembles start_size total_size st i =
     (case model_library w (fst st, snd st @ [Debug_constructing_ensemble i n_ensembles]) of
        Inl er \<Rightarrow> Inl er
      | Inr (lib1, st1) \<Rightarrow>
         (let subset_n = py_int (self_child_ensemble_model_fraction (fst st1)
                                   * of_nat (length lib1))
          in (case model_library w st1 of
                Inl er \<Rightarrow> Inl er
              | Inr (lib2, st2) \<Rightarrow>
                 (if subset_n < 0 \<or> int (length lib2) < subset_n then Inl ValueError
                  else
                    (case fetch_subset w st2
                            (random_choice w i (length lib2) (nat subset_n)) of
                       Inl er \<Rightarrow> Inl er
                     | Inr (model_subset, (e3, lg3)) \<Rightarrow>
                        (case init (self_metric e3) (self_y_true e3) (Some model_subset) None of
                           Inl er \<Rightarrow> Inl er
                         | Inr child \<Rightarrow>
                            (case build_initial_ensemble w (child, lg3) start_size of
                               Inl er \<Rightarrow> Inl er
                             | Inr c1 \<Rightarrow>
                                (case add_models w c1 (total_size - start_size) of
                                   Inl er \<Rightarrow> Inl er
                                 | Inr (child2, lg5) \<Rightarrow>
                                    (case self_child_ensembles e3 of
                                       None \<Rightarrow> Inl AttributeError
                                     | Some cs \<Rightarrow>
                                         Inr (set_child_ensembles e3 (Some (cs @ [child2])),
                                              lg5))))))))))"

fun build_rounds ::
  "'p world \<Rightarrow> int \<Rightarrow> int \<Rightarrow> int \<Rightarrow> ('p, 'l) state \<Rightarrow> nat list \<Rightarrow> error + ('p, 'l) state" where
  "build_rounds w n_ensembles start_size total_size st [] = Inr st"
| "build_rounds w n_ensembles start_size total_size st (i # rest) =
     (case build_round w n_ensembles start_size total_size st i of
        Inl er \<Rightarrow> Inl er
      | Inr st' \<Rightarrow> build_rounds w n_ensembles start_size total_size st' rest)"

fun merge_children ::
  "('p, 'l) state \<Rightarrow> ('p, 'l) ensemble list \<Rightarrow> error + ('p, 'l) state" where
  \<comment> \<open>the second loop of \<open>build_\<close>\<close>
  "merge_children st [] = Inr st"
| "merge_children st (child_ensemble # rest) =
     (case self_models child_ensemble of
        None \<Rightarrow> Inl AttributeError
      | Some ms \<Rightarrow>
         (case add_each st (dict_values ms) of
            Inl er \<Rightarrow> Inl er
          | Inr st' \<Rightarrow> merge_children st' rest))"

definition build ::
  "'p world \<Rightarrow> ('p, 'l) state \<Rightarrow> int \<Rightarrow> int \<Rightarrow> int \<Rightarrow> error + ('p, 'l) state" where
  \<comment> \<open>the method \<open>build_\<close>\<close>
  "build w st n_ensembles start_size total_size =
     (case build_rounds w n_ensembles start_size total_size st [0 ..< nat n_ensembles] of
        Inl er \<Rightarrow> Inl er
      | Inr (e1, lg1) \<Rightarrow>
         (case self_child_ensembles e1 of
            None \<Rightarrow> Inl TypeError
          | Some cs \<Rightarrow> merge_children (set_models e1 (Some []), lg1) cs))"

subsection \<open>Blended predictions\<close>

text \<open>
  A fitted pipeline is used through three operations: whether it has a
  \<open>predict_proba\<close> attribute, \<open>predict_proba(X)\<close> and \<open>predict(X)\<close>. A
  one-dimensional array, as \<open>predict\<close> returns it, is a matrix of one row.

  Modelled from the spec: sklearn's \<open>OneHotEncoder(k).fit_transform\<close> is not part of the
  sources; it turns a column of class indices below \<open>k\<close> into rows of length \<open>k\<close> with a
  single one, and refuses any other value.
\<close>

record ('p, 'x) fitted =
  has_predict_proba :: "'p \<Rightarrow> bool"
  pipeline_predict_proba :: "'p \<Rightarrow> 'x \<Rightarrow> matrix"
  pipeline_predict :: "'p \<Rightarrow> 'x \<Rightarrow> rat list"

fun one_hot :: "nat \<Rightarrow> rat list \<Rightarrow> error + matrix" where
  "one_hot k [] = Inr []"
| "one_hot k (v # vs) =
     (if v \<in> of_nat ` {0 ..< k} then
        (case one_hot k vs of
           Inl er \<Rightarrow> Inl er
         | Inr rows \<Rightarrow> Inr (map (\<lambda>j. if of_nat j = v then 1 else 0) [0 ..< k] # rows))
      else Inl ValueError)"

fun scaled_predictions ::
  "('p, 'x) fitted \<Rightarrow> metric \<Rightarrow> nat \<Rightarrow> 'x \<Rightarrow> ('p \<times> int) list \<Rightarrow> error + matrix list" where
  \<comment> \<open>the loop of \<open>predict_proba\<close> over \<open>self._fit_models\<close>, building \<open>predictions\<close>;
      \<open>raise NotImplemented(...)\<close> calls an object that is not callable, a TypeError\<close>
  "scaled_predictions f me k X [] = Inr []"
| "scaled_predictions f me k X ((model, weight) # rest) =
     (if weight = 0 then scaled_predictions f me k X rest
      else
        (case (if has_predict_proba f model then
                 Inr (mscale (pipeline_predict_proba f model X) weight)
               else
                 (let target_prediction = pipeline_predict f model X
                  in if is_classification me then
                       (case one_hot k target_prediction of
                          Inl er \<Rightarrow> Inl er
                        | Inr ohe_prediction \<Rightarrow> Inr (mscale ohe_prediction weight))
                     else if is_regression me then Inr (mscale [target_prediction] weight)
                     else Inl TypeError)) of
           Inl er \<Rightarrow> Inl er
         | Inr p \<Rightarrow>
            (case scaled_predictions f me k X rest of
               Inl er \<Rightarrow> Inl er
             | Inr ps \<Rightarrow> Inr (p # ps))))"

definition predict_proba ::
  "('p, 'x) fitted \<Rightarrow> ('p, 'l) ensemble \<Rightarrow> 'x \<Rightarrow> error + matrix" where
  "predict_proba f e X =
     (case self_fit_models e of
        None \<Rightarrow> Inl TypeError
      | Some fit_models \<Rightarrow>
         (case scaled_predictions f (self_metric e) (card (set (self_y_true e))) X fit_models of
            Inl er \<Rightarrow> Inl er
          | Inr preds \<Rightarrow>
             (if length fit_models = 1 then
                (case preds of [] \<Rightarrow> Inl IndexError | p # ps \<Rightarrow> Inr p)
              else
                (case stack_sum preds of
                   Inl er \<Rightarrow> Inl er
                 | Inr all_sum \<Rightarrow>
                    (let actual_weight_sum = sum_list (map snd fit_models)
                     in Inr (mdiv all_sum actual_weight_sum))))))"

subsection \<open>Pickling\<close>

definition getstate :: "('p, 'l) state \<Rightarrow> ('p, 'l) ensemble \<times> ('p, 'l) state" where
  \<comment> \<open>\<open>__getstate__\<close>: the copy of \<open>self.__dict__\<close> that is returned, and the object
      and the log after the call\<close>
  "getstate st =
     (let st1 = (case st of (e, lg) \<Rightarrow>
                   (if sublist ''neg'' (metric_name (self_metric e)) then
                      (case self_metric e of Metric nm fn cl rg \<Rightarrow>
                         (set_metric e (Metric nm None cl rg), lg))
                    else st));
          st2 = (case st1 of (e, lg) \<Rightarrow>
                   (if self_shrink_on_pickle e then
                      (set_child_ensembles (set_model_library (set_models e None) None) None,
                       lg @ [Info_shrinking_before_pickle])
                    else st1))
      in (fst st2, st2))"

subsection \<open>The blend as the specification words it\<close>

text \<open>
  For every fitted pipeline with a weight above zero: its probabilities if it has them,
  else its hard predictions one-hot encoded (classification) or as they are (regression);
  each scaled by its weight, summed, and divided by the sum of the weights used.
\<close>

definition raw_output ::
  "('p, 'x) fitted \<Rightarrow> metric \<Rightarrow> nat \<Rightarrow> 'x \<Rightarrow> 'p \<Rightarrow> error + matrix" where
  "raw_output f me k X p =
     (if has_predict_proba f p then Inr (pipeline_predict_proba f p X)
      else if is_classification me then one_hot k (pipeline_predict f p X)
      else if is_regression me then Inr [pipeline_predict f p X]
      else Inl TypeError)"

fun raw_outputs ::
  "('p, 'x) fitted \<Rightarrow> metric \<Rightarrow> nat \<Rightarrow> 'x \<Rightarrow> ('p \<times> int) list
     \<Rightarrow> error + (matrix \<times> int) list" where
  "raw_outputs f me k X [] = Inr []"
| "raw_outputs f me k X ((p, w) # rest) =
     (case raw_output f me k X p of
        Inl er \<Rightarrow> Inl er
      | Inr r \<Rightarrow>
         (case raw_outputs f me k X rest of
            Inl er \<Rightarrow> Inl er
          | Inr rs \<Rightarrow> Inr ((r, w) # rs)))"

definition weighted_blend ::
  "('p, 'x) fitted \<Rightarrow> metric \<Rightarrow> nat \<Rightarrow> 'x \<Rightarrow> ('p \<times> int) list \<Rightarrow> error + matrix" where
  "weighted_blend f me k X fit_models =
     (let used = filter (\<lambda>(p, w). 0 < w) fit_models
      in (case raw_outputs f me k X used of
            Inl er \<Rightarrow> Inl er
          | Inr rs \<Rightarrow>
             (case stack_sum (map (\<lambda>(r, w). mscale r w) rs) of
                Inl er \<Rightarrow> Inl er
              | Inr s \<Rightarrow> Inr (mdiv s (sum_list (map snd used))))))"

subsection \<open>Candidates of a step\<close>

definition candidates :: "'p model list \<Rightarrow> 'p model list" where
  \<comment> \<open>the library models that a step considers, in library order\<close>
  "candidates lib = filter (\<lambda>m. validation_score m \<noteq> 0) lib"

definition candidate_score ::
  "'p world \<Rightarrow> ('p, 'l) ensemble \<Rightarrow> matrix \<Rightarrow> int \<Rightarrow> 'p model \<Rightarrow> rat" where
  \<comment> \<open>the metric on the aggregate prediction with the candidate added\<close>
  "candidate_score w e avg W m =
     ev w (self_metric e) (self_y_true e) (online_update avg W (predictions m))"

definition improves :: "('p, 'l) ensemble \<Rightarrow> score \<Rightarrow> score \<Rightarrow> bool" where
  \<comment> \<open>the test of the inner loop: the new score is strictly better than the old one\<close>
  "improves e new old =
     ((self_maximize e \<and> score_less old new) \<or> (\<not> self_maximize e \<and> score_less new old))"

subsection \<open>Merging the children of a bagged ensemble\<close>

definition add_pairs :: "'p wms \<Rightarrow> ('p model \<times> int) list \<Rightarrow> 'p wms" where
  \<comment> \<open>the set after \<open>_add_model(model, weight)\<close> for each pair, in order\<close>
  "add_pairs ms pairs = foldl (\<lambda>acc (m, k). add_model acc m k) ms pairs"

definition child_pairs :: "('p, 'l) ensemble \<Rightarrow> ('p model \<times> int) list" where
  \<comment> \<open>\<open>child_ensemble._models.values()\<close>\<close>
  "child_pairs c = (case self_models c of None \<Rightarrow> [] | Some ms \<Rightarrow> dict_values ms)"

subsection \<open>Sequences of selection calls\<close>

datatype op = Seed int | Step_add int | Bagging int int int

fun apply_op :: "'p world \<Rightarrow> ('p, 'l) state \<Rightarrow> op \<Rightarrow> error + ('p, 'l) state" where
  "apply_op w st (Seed n) = build_initial_ensemble w st n"
| "apply_op w st (Step_add n) = add_models w st n"
| "apply_op w st (Bagging n_ensembles start_size total_size) =
     build w st n_ensembles start_size total_size"

definition set_ok :: "('p, 'l) ensemble \<Rightarrow> bool" where
  \<comment> \<open>the ensemble has a weighted model set, with one entry per pipeline and weights of
      at least 1\<close>
  "set_ok e = (case self_models e of None \<Rightarrow> False | Some ms \<Rightarrow> wms_inv ms)"

definition ens_inv :: "('p, 'l) ensemble \<Rightarrow> bool" where
  \<comment> \<open>the same of the ensemble and of each of its child ensembles\<close>
  "ens_inv e =
     (set_ok e \<and> (case self_child_ensembles e of None \<Rightarrow> True | Some cs \<Rightarrow> list_all set_ok cs))"

definition total_self :: "('p, 'l) ensemble \<Rightarrow> int" where
  \<comment> \<open>\<open>_total_model_weights()\<close> of an ensemble that has a weighted model set\<close>
  "total_self e = (case self_models e of None \<Rightarrow> 0 | Some ms \<Rightarrow> total_model_weights ms)"

fun additions_performed :: "op \<Rightarrow> int" where
  \<comment> \<open>the count of the specification: seeding with \<open>n\<close> is \<open>n\<close> additions, each stepwise
      addition is one; a bagged build makes its additions in the children\<close>
  "additions_performed (Seed n) = n"
| "additions_performed (Step_add n) = n"
| "additions_performed (Bagging n_ensembles start_size total_size) = 0"

fun tally :: "('p, 'l) ensemble \<Rightarrow> op \<Rightarrow> int \<Rightarrow> int" where
  \<comment> \<open>the additions made to the set since it was last emptied, after a call that left the
      ensemble \<open>e'\<close>: seeding empties the set and adds one model of the library after
      the other, at most \<open>n\<close>; stepwise addition adds \<open>n\<close> more; a bagged build empties the
      set and adds what the children hold\<close>
  "tally e' (Seed n) c = min n (int (length (case self_model_library e' of None \<Rightarrow> [] | Some lib \<Rightarrow> lib)))"
| "tally e' (Step_add n) c = c + n"
| "tally e' (Bagging n_ensembles start_size total_size) c =
     (\<Sum>child \<leftarrow> (case self_child_ensembles e' of None \<Rightarrow> [] | Some cs \<Rightarrow> cs). total_self child)"

fun run_ops ::
  "'p world \<Rightarrow> ('p, 'l) state \<times> int \<Rightarrow> op list \<Rightarrow> error + (('p, 'l) state \<times> int)" where
  \<comment> \<open>a sequence of calls on one ensemble, with the tally kept beside the state; the
      first error ends it\<close>
  "run_ops w sc [] = Inr sc"
| "run_ops w (st, c) (x # xs) =
     (case apply_op w st x of
        Inl er \<Rightarrow> Inl er
      | Inr st' \<Rightarrow> run_ops w (st', tally (fst st') x c) xs)"

section \<open>Sample inputs\<close>

definition sample_fitted :: "(nat, unit) fitted" where
  \<comment> \<open>every pipeline has \<open>predict_proba\<close> and answers one sample with probabilities
      one half, one half\<close>
  "sample_fitted =
     \<lparr>has_predict_proba = (\<lambda>p. True),
      pipeline_predict_proba = (\<lambda>p X. [[1 / 2, 1 / 2]]),
      pipeline_predict = (\<lambda>p X. [0])\<rparr>"

definition sample_ensemble ::
  "metric \<Rightarrow> nat model list \<Rightarrow> nat wms \<Rightarrow> (nat \<times> int) list option \<Rightarrow> (nat, unit) ensemble" where
  \<comment> \<open>an ensemble as \<open>__init__\<close> leaves it, with the given metric, library, weighted
      model set and fitted models, and the targets 0 and 1\<close>
  "sample_ensemble me lib ms fm =
     Ensemble me None (Some lib) True 1 [0, 1] None fm True (Some []) (3 / 10) (Some ms)"

definition accuracy :: metric where
  "accuracy = Metric ''accuracy'' (Some 0) True False"

definition neg_log_loss :: metric where
  "neg_log_loss = Metric ''neg_log_loss'' (Some 1) True False"

definition sample_dir :: "nat dir_entry list" where
  \<comment> \<open>a cache directory with one complete file and one file of zero bytes\<close>
  "sample_dir =
     [\<lparr>file_name = ''a.pkl'', st_size = 3, pickled = Some (1, [[1]], 1 / 2)\<rparr>,
      \<lparr>file_name = ''b.pkl'', st_size = 0, pickled = None\<rparr>]"

definition sample_model :: "nat \<Rightarrow> matrix \<Rightarrow> rat \<Rightarrow> nat model" where
  "sample_model p preds sc =
     \<lparr>name = ''m'', pipeline = p, predictions = preds, validation_score = sc\<rparr>"

definition two_pipelines :: "(nat, unit) fitted" where
  \<comment> \<open>pipeline 1 is sure of the first class, every other pipeline of the second\<close>
  "two_pipelines =
     \<lparr>has_predict_proba = (\<lambda>p. True),
      pipeline_predict_proba = (\<lambda>p X. if p = 1 then [[1, 0]] else [[0, 1]]),
      pipeline_predict = (\<lambda>p X. [0])\<rparr>"

definition sample_world :: "nat world" where
  \<comment> \<open>no directory can be listed; the metric reads the second entry of the first row; a
      draw of \<open>n\<close> indices takes the first \<open>n\<close>\<close>
  "sample_world =
     \<lparr>listdir = (\<lambda>d. None), str_of = (\<lambda>p. ''p''),
      ev = (\<lambda>me yt preds. hd (tl (hd preds))),
      random_choice = (\<lambda>i k n. [0 ..< n])\<rparr>"

definition sample_library :: "nat model list" where
  \<comment> \<open>four models; the second one has the validation score 0\<close>
  "sample_library =
     [sample_model 1 [[1, 0]] (9 / 10), sample_model 0 [[0, 5]] 0,
      sample_model 2 [[0, 1]] (8 / 10), sample_model 3 [[0, 1]] (7 / 10)]"

definition seeded :: "nat wms" where
  "seeded = [(1, (sample_model 1 [[1, 0]] (9 / 10), 1))]"

section \<open>Properties\<close>

subsection \<open>Reading a field after an assignment\<close>

lemma set_metric_fields [simp]:
  "self_metric (set_metric e v) = v"
  "self_model_library_directory (set_metric e v) = self_model_library_directory e"
  "self_model_library (set_metric e v) = self_model_library e"
  "self_shrink_on_pickle (set_metric e v) = self_shrink_on_pickle e"
  "self_n_jobs (set_metric e v) = self_n_jobs e"
  "self_y_true (set_metric e v) = self_y_true e"
  "self_label_encoder (set_metric e v) = self_label_encoder e"
  "self_fit_models (set_metric e v) = self_fit_models e"
  "self_maximize (set_metric e v) = self_maximize e"
  "self_child_ensembles (set_metric e v) = self_child_ensembles e"
  "self_child_ensemble_model_fraction (set_metric e v) = self_child_ensemble_model_fraction e"
  "self_models (set_metric e v) = self_models e"
  by (cases e; simp)+

lemma set_model_library_fields [simp]:
  "self_metric (set_model_library e v) = self_metric e"
  "self_model_library_directory (set_model_library e v) = self_model_library_directory e"
  "self_model_library (set_model_library e v) = v"
  "self_shrink_on_pickle (set_model_library e v) = self_shrink_on_pickle e"
  "self_n_jobs (set_model_library e v) = self_n_jobs e"
  "self_y_true (set_model_library e v) = self_y_true e"
  "self_label_encoder (set_model_library e v) = self_label_encoder e"
  "self_fit_models (set_model_library e v) = self_fit_models e"
  "self_maximize (set_model_library e v) = self_maximize e"
  "self_child_ensembles (set_model_library e v) = self_child_ensembles e"
  "self_child_ensemble_model_fraction (set_model_library e v) = self_child_ensemble_model_fraction e"
  "self_models (set_model_library e v) = self_models e"
  by (cases e; simp)+

lemma set_child_ensembles_fields [simp]:
  "self_metric (set_child_ensembles e v) = self_metric e"
  "self_model_library_directory (set_child_ensembles e v) = self_model_library_directory e"
  "self_model_library (set_child_ensembles e v) = self_model_library e"
  "self_shrink_on_pickle (set_child_ensembles e v) = self_shrink_on_pickle e"
  "self_n_jobs (set_child_ensembles e v) = self_n_jobs e"
  "self_y_true (set_child_ensembles e v) = self_y_true e"
  "self_label_encoder (set_child_ensembles e v) = self_label_encoder e"
  "self_fit_models (set_child_ensembles e v) = self_fit_models e"
  "self_maximize (set_child_ensembles e v) = self_maximize e"
  "self_child_ensembles (set_child_ensembles e v) = v"
  "self_child_ensemble_model_fraction (set_child_ensembles e v) = self_child_ensemble_model_fraction e"
  "self_models (set_child_ensembles e v) = self_models e"
  by (cases e; simp)+

lemma set_models_fields [simp]:
  "self_metric (set_models e v) = self_metric e"
  "self_model_library_directory (set_models e v) = self_model_library_directory e"
  "self_model_library (set_models e v) = self_model_library e"
  "self_shrink_on_pickle (set_models e v) = self_shrink_on_pickle e"
  "self_n_jobs (set_models e v) = self_n_jobs e"
  "self_y_true (set_models e v) = self_y_true e"
  "self_label_encoder (set_models e v) = self_label_encoder e"
  "self_fit_models (set_models e v) = self_fit_models e"
  "self_maximize (set_models e v) = self_maximize e"
  "self_child_ensembles (set_models e v) = self_child_ensembles e"
  "self_child_ensemble_model_fraction (set_models e v) = self_child_ensemble_model_fraction e"
  "self_models (set_models e v) = v"
  by (cases e; simp)+

text \<open>
  C1. The claim: with exactly one fitted model of weight \<open>w > 0\<close>, \<open>predict_proba\<close> returns
  the model's own output, the weight cancelling. The code returns \<open>predictions[0]\<close>,
  which is the output already multiplied by the weight and not divided by it: with one
  fitted model of weight 2 whose probabilities are one half and one half, the result is
  one and one.
\<close>

theorem predict_proba_single_keeps_weight:
  "predict_proba sample_fitted (sample_ensemble accuracy [] [] (Some [(7, 2)])) () = Inr [[1, 1]]
   \<and> pipeline_predict_proba sample_fitted 7 () = [[1 / 2, 1 / 2]]"
  by (simp add: predict_proba_def sample_fitted_def sample_ensemble_def accuracy_def mscale_def)

text \<open>
  C2. The claim: \<open>load_predictions\<close> returns one record per file of more than zero bytes
  and skips a file of zero bytes without an error and without a record. In the code the
  record is appended for every file with the extension, whatever its size: a zero-byte
  file after a complete one repeats the record of the complete one, and a zero-byte file
  that comes first reads variables that were never bound.
\<close>

theorem load_predictions_zero_bytes:
  "load_predictions (\<lambda>p. ''p'') sample_dir False =
     Inr [\<lparr>name = ''p'', pipeline = 1, predictions = [[1]], validation_score = 1 / 2\<rparr>,
          \<lparr>name = ''p'', pipeline = 1, predictions = [[1]], validation_score = 1 / 2\<rparr>]
   \<and> load_predictions (\<lambda>p. ''p'') (rev sample_dir) False = Inl UnboundLocalError"
  by (simp add: load_predictions_def sample_dir_def suffix_to_prefix)

text \<open>
  C9. The claim: when the ensemble shrinks on pickling, \<open>__getstate__\<close> sets the weighted
  model set, the library and the child ensembles to \<open>None\<close>, keeps the targets, and
  every other field keeps its value. The last part fails for the metric: a metric whose
  name contains \<open>neg\<close> loses its function before the copy is taken.
\<close>

theorem getstate_metric_counterexample:
  "self_shrink_on_pickle (sample_ensemble neg_log_loss [] [] None)
   \<and> self_metric (fst (getstate (sample_ensemble neg_log_loss [] [] None, [])))
       \<noteq> self_metric (sample_ensemble neg_log_loss [] [] None)"
  by (simp add: getstate_def sample_ensemble_def neg_log_loss_def sublist_Cons_right)

text \<open>
  C9, amended: the three fields are \<open>None\<close>, the targets and all other fields keep their
  values, except that the metric's function is \<open>None\<close> when the metric's name contains
  \<open>neg\<close> (its name and flags stay).
\<close>

theorem getstate_shrink:
  assumes "self_shrink_on_pickle e"
  shows "fst (snd (getstate (e, lg))) = fst (getstate (e, lg))
    \<and> self_models (fst (getstate (e, lg))) = None
    \<and> self_model_library (fst (getstate (e, lg))) = None
    \<and> self_child_ensembles (fst (getstate (e, lg))) = None
    \<and> self_y_true (fst (getstate (e, lg))) = self_y_true e
    \<and> self_model_library_directory (fst (getstate (e, lg))) = self_model_library_directory e
    \<and> self_shrink_on_pickle (fst (getstate (e, lg))) = self_shrink_on_pickle e
    \<and> self_n_jobs (fst (getstate (e, lg))) = self_n_jobs e
    \<and> self_label_encoder (fst (getstate (e, lg))) = self_label_encoder e
    \<and> self_fit_models (fst (getstate (e, lg))) = self_fit_models e
    \<and> self_maximize (fst (getstate (e, lg))) = self_maximize e
    \<and> self_child_ensemble_model_fraction (fst (getstate (e, lg)))
        = self_child_ensemble_model_fraction e
    \<and> self_metric (fst (getstate (e, lg))) =
        (if sublist ''neg'' (metric_name (self_metric e))
         then Metric (metric_name (self_metric e)) None
                (is_classification (self_metric e)) (is_regression (self_metric e))
         else self_metric e)"
proof (cases e)
  case (Ensemble me di li sh nj yt le fm mx ch fr ms)
  with assms show ?thesis
    by (cases me) (simp add: getstate_def)
qed

theorem getstate_shrink_witness:
  "self_shrink_on_pickle (sample_ensemble neg_log_loss [] [] None)
   \<and> self_models (fst (getstate (sample_ensemble neg_log_loss [] [] None, []))) = None
   \<and> self_y_true (fst (getstate (sample_ensemble neg_log_loss [] [] None, []))) = [0, 1]
   \<and> self_metric (fst (getstate (sample_ensemble neg_log_loss [] [] None, [])))
       = Metric ''neg_log_loss'' None True False"
  using getstate_shrink [of "sample_ensemble neg_log_loss [] [] None" "[]"]
  by (simp add: sample_ensemble_def neg_log_loss_def sublist_Cons_right)

subsection \<open>Arrays of one shape, and the effect of adding a model\<close>

lemma same_shape_iff:
  "same_shape a b \<longleftrightarrow> length a = length b \<and> (\<forall>i < length a. length (a ! i) = length (b ! i))"
  by (auto simp: same_shape_def list_eq_iff_nth_eq)

lemma same_shape_refl: "same_shape a a"
  by (simp add: same_shape_def)

lemma same_shape_sym: "same_shape a b \<Longrightarrow> same_shape b a"
  by (simp add: same_shape_def)

lemma same_shape_trans: "same_shape a b \<Longrightarrow> same_shape b c \<Longrightarrow> same_shape a c"
  by (simp add: same_shape_def)

lemma matrix_eqI:
  assumes "same_shape a b"
    and "\<And>i j. i < length a \<Longrightarrow> j < length (a ! i) \<Longrightarrow> a ! i ! j = b ! i ! j"
  shows "a = b"
  using assms by (auto simp: same_shape_iff intro!: nth_equalityI)

lemma madd_shape: "same_shape a b \<Longrightarrow> same_shape (madd a b) a"
  by (auto simp: same_shape_iff madd_def)

lemma madd_nth:
  "same_shape a b \<Longrightarrow> i < length a \<Longrightarrow> j < length (a ! i) \<Longrightarrow>
     madd a b ! i ! j = a ! i ! j + b ! i ! j"
  by (auto simp: same_shape_iff madd_def)

lemma msub_shape: "same_shape a b \<Longrightarrow> same_shape (msub a b) a"
  by (auto simp: same_shape_iff msub_def)

lemma msub_nth:
  "same_shape a b \<Longrightarrow> i < length a \<Longrightarrow> j < length (a ! i) \<Longrightarrow>
     msub a b ! i ! j = a ! i ! j - b ! i ! j"
  by (auto simp: same_shape_iff msub_def)

lemma mscale_shape: "same_shape (mscale a k) a"
  by (auto simp: same_shape_iff mscale_def)

lemma mscale_nth:
  "i < length a \<Longrightarrow> j < length (a ! i) \<Longrightarrow> mscale a k ! i ! j = a ! i ! j * of_int k"
  by (auto simp: mscale_def)

lemma mdiv_shape: "same_shape (mdiv a k) a"
  by (auto simp: same_shape_iff mdiv_def)

lemma mdiv_nth:
  "i < length a \<Longrightarrow> j < length (a ! i) \<Longrightarrow> mdiv a k ! i ! j = a ! i ! j / of_int k"
  by (auto simp: mdiv_def)

lemma foldl_madd_shape:
  "\<forall>k \<in> set ms. same_shape k m \<Longrightarrow> same_shape (foldl madd m ms) m"
proof (induction ms rule: rev_induct)
  case Nil
  then show ?case by (simp add: same_shape_refl)
next
  case (snoc x xs)
  then have a: "same_shape (foldl madd m xs) m" and b: "same_shape x m" by auto
  from a b have "same_shape (foldl madd m xs) x"
    by (simp add: same_shape_def)
  from madd_shape [OF this] a show ?case
    by (simp add: same_shape_def)
qed

lemma foldl_madd_nth:
  "\<forall>k \<in> set ms. same_shape k m \<Longrightarrow> i < length m \<Longrightarrow> j < length (m ! i) \<Longrightarrow>
     foldl madd m ms ! i ! j = m ! i ! j + (\<Sum>k \<leftarrow> ms. k ! i ! j)"
proof (induction ms rule: rev_induct)
  case Nil
  then show ?case by simp
next
  case (snoc x xs)
  then have a: "same_shape (foldl madd m xs) m" and b: "same_shape x m"
    by (auto intro: foldl_madd_shape)
  from a b have c: "same_shape (foldl madd m xs) x"
    by (simp add: same_shape_def)
  from a snoc.prems have d: "i < length (foldl madd m xs)" "j < length (foldl madd m xs ! i)"
    by (auto simp: same_shape_iff)
  show ?case
    using snoc madd_nth [OF c d] by simp
qed


lemma stack_sum_scaled:
  assumes "vals \<noteq> []" and "\<forall>v \<in> set vals. same_shape (predictions (fst v)) c"
  shows "\<exists>s. stack_sum (map (\<lambda>(m, w). mscale (predictions m) w) vals) = Inr s
           \<and> same_shape s c
           \<and> (\<forall>i < length c. \<forall>j < length (c ! i).
                 s ! i ! j = (\<Sum>v \<leftarrow> vals. predictions (fst v) ! i ! j * of_int (snd v)))"
proof -
  from assms(1) obtain v vs where vals: "vals = v # vs" by (cases vals) auto
  let ?f = "\<lambda>(m, w). mscale (predictions m) w"
  have sh: "same_shape (?f x) c" if "x \<in> set vals" for x
    using that assms(2) mscale_shape [of "predictions (fst x)" "snd x"]
    by (auto simp: same_shape_def split: prod.splits)
  have all: "\<forall>k \<in> set (map ?f vs). same_shape k (?f v)"
    using sh vals by (auto simp: same_shape_def)
  then have eq: "stack_sum (map ?f vals) = Inr (foldl madd (?f v) (map ?f vs))"
    by (simp add: vals)
  have shv: "same_shape (?f v) c" using sh vals by simp
  have s1: "same_shape (foldl madd (?f v) (map ?f vs)) c"
    using foldl_madd_shape [OF all] shv by (simp add: same_shape_def)
  have s2: "foldl madd (?f v) (map ?f vs) ! i ! j
        = (\<Sum>v \<leftarrow> vals. predictions (fst v) ! i ! j * of_int (snd v))"
    if ij: "i < length c" "j < length (c ! i)" for i j
  proof -
    have r: "i < length (?f v)" "j < length (?f v ! i)"
      using shv ij by (auto simp: same_shape_iff)
    have el: "?f x ! i ! j = predictions (fst x) ! i ! j * of_int (snd x)"
      if "x \<in> set vals" for x
    proof -
      from that assms(2) have "same_shape (predictions (fst x)) c" by simp
      with ij have "i < length (predictions (fst x))" "j < length (predictions (fst x) ! i)"
        by (auto simp: same_shape_iff)
      then show ?thesis by (cases x) (simp add: mscale_nth)
    qed
    have "(\<Sum>k \<leftarrow> map ?f vs. k ! i ! j)
        = (\<Sum>x \<leftarrow> vs. predictions (fst x) ! i ! j * of_int (snd x))"
      unfolding map_map comp_def
      by (rule arg_cong [where f = sum_list], rule map_cong) (use el vals in auto)
    then show ?thesis
      using foldl_madd_nth [OF all r] el [of v] vals by simp
  qed
  from eq s1 s2 show ?thesis by blast
qed

lemma sum_list_pop:
  fixes g :: "'k \<times> 'v \<Rightarrow> 'a::comm_monoid_add"
  shows "distinct (map fst ms) \<Longrightarrow> map_of ms k = Some v \<Longrightarrow>
     (\<Sum>x \<leftarrow> ms. g x) = g (k, v) + (\<Sum>x \<leftarrow> filter (\<lambda>kv. fst kv \<noteq> k) ms. g x)"
proof (induction ms)
  case Nil
  then show ?case by simp
next
  case (Cons a ms)
  show ?case
  proof (cases "fst a = k")
    case True
    with Cons.prems have av: "a = (k, v)" by (cases a) auto
    from Cons.prems True have "k \<notin> fst ` set ms" by auto
    then have "filter (\<lambda>kv. fst kv \<noteq> k) ms = ms"
      by (auto simp: filter_id_conv)
    with av show ?thesis by simp
  next
    case False
    with Cons show ?thesis by (auto simp: ac_simps)
  qed
qed

lemma add_model_absent:
  assumes "map_of ms (pipeline c) = None"
  shows "add_model ms c k = ms @ [(pipeline c, (c, k))]"
proof -
  from assms have "pipeline c \<notin> fst ` set ms" by (simp add: map_of_eq_None_iff)
  with assms show ?thesis
    by (simp add: add_model_def dict_pop_def dict_set_def)
qed

lemma add_model_present:
  assumes "keyed ms" and "map_of ms (pipeline c) = Some (m', w')"
  shows "add_model ms c k
       = filter (\<lambda>kv. fst kv \<noteq> pipeline c) ms @ [(pipeline c, (m', w' + k))]"
proof -
  from assms(2) have "(pipeline c, (m', w')) \<in> set ms" by (rule map_of_SomeD)
  with assms(1) have "pipeline m' = pipeline c"
    by (auto simp: keyed_def list_all_iff)
  with assms(2) show ?thesis
    by (auto simp: add_model_def dict_pop_def dict_set_def)
qed

lemma total_add_model:
  assumes "keyed ms"
  shows "total_model_weights (add_model ms c k) = total_model_weights ms + k"
proof (cases "map_of ms (pipeline c)")
  case None
  then show ?thesis
    by (simp add: add_model_absent total_model_weights_def dict_values_def)
next
  case (Some v)
  obtain m' w' where v: "v = (m', w')" by (cases v)
  from assms have d: "distinct (map fst ms)" by (simp add: keyed_def)
  have "(\<Sum>x \<leftarrow> ms. snd (snd x))
      = w' + (\<Sum>x \<leftarrow> filter (\<lambda>kv. fst kv \<noteq> pipeline c) ms. snd (snd x))"
    using sum_list_pop [OF d, of "pipeline c" v "\<lambda>x. snd (snd x)"] Some v by simp
  then show ?thesis
    using add_model_present [OF assms, of c m' w' k] Some v
    by (simp add: total_model_weights_def dict_values_def comp_def)
qed


lemma values_add_model:
  assumes "keyed ms" and "v \<in> set (dict_values (add_model ms c k))"
  shows "fst v = c \<or> fst v \<in> fst ` set (dict_values ms)"
proof (cases "map_of ms (pipeline c)")
  case None
  with assms(2) show ?thesis
    by (auto simp: add_model_absent dict_values_def)
next
  case (Some u)
  obtain m' w' where u: "u = (m', w')" by (cases u)
  from Some u have "(pipeline c, (m', w')) \<in> set ms" by (simp add: map_of_SomeD)
  then have "m' \<in> fst ` set (dict_values ms)"
    by (force simp: dict_values_def)
  from assms(2) have "v = (m', w' + k) \<or> v \<in> set (dict_values ms)"
    using add_model_present [OF assms(1), of c m' w' k] Some u
    by (auto simp: dict_values_def)
  then show ?thesis
  proof
    assume "v = (m', w' + k)"
    then have "fst v = m'" by simp
    with \<open>m' \<in> fst ` set (dict_values ms)\<close> show ?thesis by simp
  next
    assume "v \<in> set (dict_values ms)"
    then show ?thesis by simp
  qed
qed

lemma wsum_add_model:
  assumes "keyed ms"
    and "\<forall>m' w'. map_of ms (pipeline c) = Some (m', w') \<longrightarrow> predictions m' = predictions c"
  shows "(\<Sum>v \<leftarrow> dict_values (add_model ms c k). predictions (fst v) ! i ! j * of_int (snd v))
       = (\<Sum>v \<leftarrow> dict_values ms. predictions (fst v) ! i ! j * of_int (snd v))
         + predictions c ! i ! j * of_int k"
proof (cases "map_of ms (pipeline c)")
  case None
  then show ?thesis
    by (simp add: add_model_absent dict_values_def)
next
  case (Some u)
  obtain m' w' where u: "u = (m', w')" by (cases u)
  with Some assms(2) have p: "predictions m' = predictions c" by simp
  let ?g = "\<lambda>x :: 'a \<times> 'a model \<times> int. predictions (fst (snd x)) ! i ! j * of_int (snd (snd x))"
  from assms(1) have d: "distinct (map fst ms)" by (simp add: keyed_def)
  have "(\<Sum>x \<leftarrow> ms. ?g x)
      = ?g (pipeline c, u) + (\<Sum>x \<leftarrow> filter (\<lambda>kv. fst kv \<noteq> pipeline c) ms. ?g x)"
    using Some by (rule sum_list_pop [OF d])
  then show ?thesis
    using add_model_present [OF assms(1), of c m' w' k] Some u p
    by (simp add: dict_values_def comp_def algebra_simps)
qed

lemma total_positive:
  assumes "wms_inv ms" and "ms \<noteq> []"
  shows "1 \<le> total_model_weights ms"
proof -
  have "list_all (\<lambda>(k, (m, w)). 1 \<le> w) ms \<Longrightarrow> ms \<noteq> [] \<Longrightarrow> 1 \<le> (\<Sum>x \<leftarrow> ms. snd (snd x))"
  proof (induction ms)
    case Nil
    then show ?case by simp
  next
    case (Cons a ms)
    then show ?case
      by (cases ms) (auto split: prod.splits)
  qed
  with assms show ?thesis
    by (simp add: wms_inv_def total_model_weights_def dict_values_def comp_def)
qed

lemma online_step:
  fixes S c :: rat and W :: int
  assumes "1 \<le> W"
  shows "(S + c * 1) / of_int (W + 1) = S / of_int W + (c - S / of_int W) / of_int (W + 1)"
proof -
  define w :: rat where "w = of_int W"
  from assms have "1 \<le> w" by (simp add: w_def)
  then have nz: "w \<noteq> 0" "w + 1 \<noteq> 0" by auto
  have a: "S / w = S * (w + 1) / (w * (w + 1))"
    using nz by simp
  have "c - S / w = (c * w - S) / w"
    using nz by (simp add: diff_divide_distrib)
  then have b: "(c - S / w) / (w + 1) = (c * w - S) / (w * (w + 1))"
    by simp
  have "S / w + (c - S / w) / (w + 1) = (S * (w + 1) + (c * w - S)) / (w * (w + 1))"
    unfolding b by (subst a) (simp add: add_divide_distrib)
  also have "\<dots> = ((S + c) * w) / (w * (w + 1))"
    by (simp add: algebra_simps)
  also have "\<dots> = (S + c) / (w + 1)"
    using nz by simp
  finally show ?thesis by (simp add: w_def)
qed

text \<open>
  C4. For a non-empty weighted model set (one entry per pipeline, weights at least 1) with
  total weight \<open>W\<close> and weighted average \<open>avg\<close>, and a candidate whose predictions have
  the shape of the others, the online update \<open>avg + (candidate - avg) / (W + 1)\<close> is the
  weighted average recomputed from scratch after the candidate has been added with
  weight 1. A candidate whose pipeline is already in the set is the model stored there
  (a model record is identified by its pipeline).
\<close>

theorem online_update_is_recomputation:
  assumes inv: "wms_inv ms" and ne: "ms \<noteq> []"
    and shapes: "\<forall>v \<in> set (dict_values ms). same_shape (predictions (fst v)) (predictions c)"
    and same: "\<forall>m' w'. map_of ms (pipeline c) = Some (m', w') \<longrightarrow> predictions m' = predictions c"
  shows "\<exists>avg. averaged_validation_predictions ms = Inr avg
           \<and> averaged_validation_predictions (add_model ms c 1)
               = Inr (online_update avg (total_model_weights ms) (predictions c))"
proof -
  let ?c = "predictions c"
  let ?W = "total_model_weights ms"
  let ?ms' = "add_model ms c 1"
  from inv have k: "keyed ms" by (simp add: wms_inv_def)
  from inv ne have W: "1 \<le> ?W" by (rule total_positive)
  from ne have ne1: "dict_values ms \<noteq> []" by (simp add: dict_values_def)
  from stack_sum_scaled [OF ne1 shapes] obtain s where
    s: "stack_sum (map (\<lambda>(m, w). mscale (predictions m) w) (dict_values ms)) = Inr s"
    and ss: "same_shape s ?c"
    and se: "\<And>i j. i < length ?c \<Longrightarrow> j < length (?c ! i) \<Longrightarrow>
          s ! i ! j = (\<Sum>v \<leftarrow> dict_values ms. predictions (fst v) ! i ! j * of_int (snd v))"
    by blast
  have ne2: "dict_values ?ms' \<noteq> []"
    using k by (cases "map_of ms (pipeline c)")
      (auto simp: add_model_absent add_model_present dict_values_def)
  have shapes2: "\<forall>v \<in> set (dict_values ?ms'). same_shape (predictions (fst v)) ?c"
  proof
    fix v assume "v \<in> set (dict_values ?ms')"
    from values_add_model [OF k this] shapes show "same_shape (predictions (fst v)) ?c"
      by (auto simp: same_shape_refl)
  qed
  from stack_sum_scaled [OF ne2 shapes2] obtain s' where
    s': "stack_sum (map (\<lambda>(m, w). mscale (predictions m) w) (dict_values ?ms')) = Inr s'"
    and ss': "same_shape s' ?c"
    and se': "\<And>i j. i < length ?c \<Longrightarrow> j < length (?c ! i) \<Longrightarrow>
          s' ! i ! j = (\<Sum>v \<leftarrow> dict_values ?ms'. predictions (fst v) ! i ! j * of_int (snd v))"
    by blast
  let ?avg = "mdiv s ?W"
  have a1: "averaged_validation_predictions ms = Inr ?avg"
    by (simp add: averaged_validation_predictions_def s)
  have a2: "averaged_validation_predictions ?ms' = Inr (mdiv s' (?W + 1))"
    by (simp add: averaged_validation_predictions_def s' total_add_model [OF k])
  have sa: "same_shape ?avg ?c"
    using mdiv_shape [of s ?W] ss by (simp add: same_shape_def)
  have sca: "same_shape ?c ?avg"
    using sa by (rule same_shape_sym)
  have sd: "same_shape (mdiv (msub ?c ?avg) (?W + 1)) ?c"
    using mdiv_shape [of "msub ?c ?avg" "?W + 1"] msub_shape [OF sca]
    by (simp add: same_shape_def)
  have sad: "same_shape ?avg (mdiv (msub ?c ?avg) (?W + 1))"
    using sa sd by (simp add: same_shape_def)
  have so: "same_shape (online_update ?avg ?W ?c) ?c"
    unfolding online_update_def using madd_shape [OF sad] sa by (simp add: same_shape_def)
  have "mdiv s' (?W + 1) = online_update ?avg ?W ?c"
  proof (rule matrix_eqI)
    show "same_shape (mdiv s' (?W + 1)) (online_update ?avg ?W ?c)"
      using mdiv_shape [of s' "?W + 1"] ss' so by (simp add: same_shape_def)
  next
    fix i j
    assume "i < length (mdiv s' (?W + 1))" and "j < length (mdiv s' (?W + 1) ! i)"
    then have ij': "i < length s'" "j < length (s' ! i)"
      by (simp_all add: mdiv_def)
    with ss' have ij: "i < length ?c" "j < length (?c ! i)"
      by (auto simp: same_shape_iff)
    with ss have ijs: "i < length s" "j < length (s ! i)"
      by (auto simp: same_shape_iff)
    from ij sa have ija: "i < length ?avg" "j < length (?avg ! i)"
      by (auto simp: same_shape_iff)
    from ij have ijm: "i < length (msub ?c ?avg)" "j < length (msub ?c ?avg ! i)"
      using msub_shape [OF sca] by (auto simp: same_shape_iff)
    let ?S = "\<Sum>v \<leftarrow> dict_values ms. predictions (fst v) ! i ! j * of_int (snd v)"
    have l: "mdiv s' (?W + 1) ! i ! j = (?S + ?c ! i ! j * 1) / of_int (?W + 1)"
      using mdiv_nth [OF ij'] se' [OF ij] wsum_add_model [OF k same, where k = 1 and i = i and j = j] by simp
    have r: "online_update ?avg ?W ?c ! i ! j
          = ?S / of_int ?W + (?c ! i ! j - ?S / of_int ?W) / of_int (?W + 1)"
      unfolding online_update_def
      using madd_nth [OF sad ija] mdiv_nth [OF ijm] msub_nth [OF sca ij] mdiv_nth [OF ijs]
        se [OF ij]
      by simp
    show "mdiv s' (?W + 1) ! i ! j = online_update ?avg ?W ?c ! i ! j"
      unfolding l r by (rule online_step [OF W])
  qed
  with a1 a2 show ?thesis by simp
qed

theorem online_update_is_recomputation_witness:
  "wms_inv [(1, (sample_model 1 [[1, 0]] 1, 1))]
   \<and> averaged_validation_predictions [(1, (sample_model 1 [[1, 0]] 1, 1))] = Inr [[1, 0]]
   \<and> averaged_validation_predictions
        (add_model [(1, (sample_model 1 [[1, 0]] 1, 1))] (sample_model 2 [[0, 1]] 1) 1)
       = Inr (online_update [[1, 0]] 1 [[0, 1]])
   \<and> online_update [[1, 0]] 1 [[0, 1]] = [[1 / 2, 1 / 2]]"
  using online_update_is_recomputation
    [of "[(1, (sample_model 1 [[1, 0]] 1, 1))]" "sample_model 2 [[0, 1]] 1"]
  by (simp add: wms_inv_def keyed_def sample_model_def dict_values_def same_shape_def
      averaged_validation_predictions_def mscale_def mdiv_def total_model_weights_def
      online_update_def madd_def msub_def)

subsection \<open>The blend of two or more fitted models\<close>

lemma scaled_predictions_raw:
  "\<forall>v \<in> set fm. 0 \<le> snd v \<Longrightarrow>
     scaled_predictions f me k X fm =
       (case raw_outputs f me k X (filter (\<lambda>(p, w). 0 < w) fm) of
          Inl er \<Rightarrow> Inl er
        | Inr rs \<Rightarrow> Inr (map (\<lambda>(r, w). mscale r w) rs))"
proof (induction fm)
  case Nil
  then show ?case by simp
next
  case (Cons a fm)
  obtain p w where a: "a = (p, w)" by (cases a)
  from Cons.prems have ih: "scaled_predictions f me k X fm =
       (case raw_outputs f me k X (filter (\<lambda>(p, w). 0 < w) fm) of
          Inl er \<Rightarrow> Inl er
        | Inr rs \<Rightarrow> Inr (map (\<lambda>(r, w). mscale r w) rs))"
    by (intro Cons.IH) simp
  from Cons.prems a have w: "0 \<le> w" by simp
  show ?case
  proof (cases "w = 0")
    case True
    with a ih show ?thesis by simp
  next
    case False
    with w have "0 < w" by simp
    with a ih show ?thesis
      by (auto simp: raw_output_def split: sum.splits)
  qed
qed

lemma sum_positive_weights:
  "\<forall>v \<in> set fm. 0 \<le> snd v \<Longrightarrow>
     sum_list (map snd (filter (\<lambda>(p, w). 0 < w) fm)) = sum_list (map snd (fm :: ('p \<times> int) list))"
  by (induction fm) (auto split: prod.splits)

text \<open>
  C7. With two or more fitted models, whose weights are selection weights or 0,
  \<open>predict_proba\<close> is the blend of the specification: the weight-scaled outputs of the
  entries with a weight above zero, summed and divided by the sum of those weights. An
  entry of weight 0 adds nothing to the sum or to the divisor, and the weights selected
  in \<open>self._models\<close> play no part.
\<close>

theorem predict_proba_blend:
  assumes "self_fit_models e = Some fm" and "2 \<le> length fm" and "\<forall>v \<in> set fm. 0 \<le> snd v"
  shows "predict_proba f e X = weighted_blend f (self_metric e) (card (set (self_y_true e))) X fm
       \<and> predict_proba f (set_models e nominal) X = predict_proba f e X"
proof -
  from assms(2) have l: "length fm \<noteq> 1" by simp
  have "predict_proba f e X = weighted_blend f (self_metric e) (card (set (self_y_true e))) X fm"
    using assms(1) l
    by (simp add: predict_proba_def weighted_blend_def scaled_predictions_raw [OF assms(3)]
        sum_positive_weights [OF assms(3)] split: sum.splits)
  moreover have "predict_proba f (set_models e nominal) X = predict_proba f e X"
    by (simp add: predict_proba_def cong: option.case_cong)
  ultimately show ?thesis by simp
qed

theorem predict_proba_blend_witness:
  "self_fit_models (sample_ensemble accuracy [] [] (Some [(1, 3), (2, 0), (3, 1)]))
     = Some [(1, 3), (2, 0), (3, 1)]
   \<and> predict_proba two_pipelines
        (sample_ensemble accuracy [] [] (Some [(1, 3), (2, 0), (3, 1)])) () = Inr [[3 / 4, 1 / 4]]
   \<and> weighted_blend two_pipelines accuracy 2 () [(1, 3), (2, 0), (3, 1)] = Inr [[3 / 4, 1 / 4]]"
  using predict_proba_blend
    [of "sample_ensemble accuracy [] [] (Some [(1, 3), (2, 0), (3, 1)])" "[(1, 3), (2, 0), (3, 1)]"
        two_pipelines "()" None]
  by (simp add: sample_ensemble_def accuracy_def two_pipelines_def weighted_blend_def
      raw_output_def mscale_def mdiv_def madd_def same_shape_def card_insert_if)

subsection \<open>One step of the stepwise addition\<close>

lemma score_less_trans: "score_less a b \<Longrightarrow> score_less b c \<Longrightarrow> score_less a c"
  by (cases a; cases b; cases c) auto

lemma improves_trans: "improves e a b \<Longrightarrow> improves e b c \<Longrightarrow> improves e a c"
  by (auto simp: improves_def intro: score_less_trans)

lemma improves_over_loser:
  "improves e (Fin a) s \<Longrightarrow> \<not> improves e (Fin c) s \<Longrightarrow> improves e (Fin a) (Fin c)"
  by (cases s) (auto simp: improves_def)

lemma improves_start:
  "improves e (Fin a) (if self_maximize e then NegInf else PosInf)"
  by (simp add: improves_def)

lemma scan_library_Cons:
  "scan_library w e avg W (m # lib) (b, s) =
     (if validation_score m = 0 then scan_library w e avg W lib (b, s)
      else if \<not> same_shape (predictions m) avg then Inl ValueError
      else if improves e (Fin (candidate_score w e avg W m)) s
        then scan_library w e avg W lib (Some m, Fin (candidate_score w e avg W m))
        else scan_library w e avg W lib (b, s))"
  by (simp add: improves_def candidate_score_def Let_def)

lemma scan_library_result:
  assumes "scan_library w e avg W lib (b, s) = Inr (b', s')"
  shows "(b' = b \<and> s' = s
          \<and> (\<forall>x \<in> set (candidates lib). \<not> improves e (Fin (candidate_score w e avg W x)) s))
       \<or> (\<exists>pre m post. candidates lib = pre @ m # post \<and> b' = Some m
            \<and> s' = Fin (candidate_score w e avg W m)
            \<and> improves e (Fin (candidate_score w e avg W m)) s
            \<and> (\<forall>x \<in> set pre. improves e (Fin (candidate_score w e avg W m))
                                           (Fin (candidate_score w e avg W x)))
            \<and> (\<forall>x \<in> set post. \<not> improves e (Fin (candidate_score w e avg W x))
                                              (Fin (candidate_score w e avg W m))))"
  using assms
proof (induction lib arbitrary: b s)
  case Nil
  then show ?case by (simp add: candidates_def)
next
  case (Cons m0 lib)
  let ?sc = "candidate_score w e avg W"
  show ?case
  proof (cases "validation_score m0 = 0")
    case True
    with Cons.prems have "scan_library w e avg W lib (b, s) = Inr (b', s')" by simp
    from Cons.IH [OF this] True show ?thesis by (simp add: candidates_def)
  next
    case False
    then have c: "candidates (m0 # lib) = m0 # candidates lib" by (simp add: candidates_def)
    from False Cons.prems have sh: "same_shape (predictions m0) avg"
      by (auto split: if_splits)
    show ?thesis
    proof (cases "improves e (Fin (?sc m0)) s")
      case True
      with False sh Cons.prems
      have "scan_library w e avg W lib (Some m0, Fin (?sc m0)) = Inr (b', s')"
        by (simp add: scan_library_Cons del: scan_library.simps)
      from Cons.IH [OF this] show ?thesis
      proof (elim disjE exE conjE)
        assume "b' = Some m0" "s' = Fin (?sc m0)"
          "\<forall>x \<in> set (candidates lib). \<not> improves e (Fin (?sc x)) (Fin (?sc m0))"
        with True c have "candidates (m0 # lib) = [] @ m0 # candidates lib \<and> b' = Some m0
            \<and> s' = Fin (?sc m0) \<and> improves e (Fin (?sc m0)) s
            \<and> (\<forall>x \<in> set []. improves e (Fin (?sc m0)) (Fin (?sc x)))
            \<and> (\<forall>x \<in> set (candidates lib). \<not> improves e (Fin (?sc x)) (Fin (?sc m0)))"
          by simp
        then show ?thesis by blast
      next
        fix pre m post
        assume h: "candidates lib = pre @ m # post" "b' = Some m" "s' = Fin (?sc m)"
          "improves e (Fin (?sc m)) (Fin (?sc m0))"
          "\<forall>x \<in> set pre. improves e (Fin (?sc m)) (Fin (?sc x))"
          "\<forall>x \<in> set post. \<not> improves e (Fin (?sc x)) (Fin (?sc m))"
        from h(4) True have "improves e (Fin (?sc m)) s" by (rule improves_trans)
        with h c have "candidates (m0 # lib) = (m0 # pre) @ m # post \<and> b' = Some m
            \<and> s' = Fin (?sc m) \<and> improves e (Fin (?sc m)) s
            \<and> (\<forall>x \<in> set (m0 # pre). improves e (Fin (?sc m)) (Fin (?sc x)))
            \<and> (\<forall>x \<in> set post. \<not> improves e (Fin (?sc x)) (Fin (?sc m)))"
          by simp
        then show ?thesis by blast
      qed
    next
      case no: False
      with False sh Cons.prems
      have "scan_library w e avg W lib (b, s) = Inr (b', s')"
        by (simp add: scan_library_Cons del: scan_library.simps)
      from Cons.IH [OF this] show ?thesis
      proof (elim disjE exE conjE)
        assume "b' = b" "s' = s"
          "\<forall>x \<in> set (candidates lib). \<not> improves e (Fin (?sc x)) s"
        with no c show ?thesis by simp
      next
        fix pre m post
        assume h: "candidates lib = pre @ m # post" "b' = Some m" "s' = Fin (?sc m)"
          "improves e (Fin (?sc m)) s"
          "\<forall>x \<in> set pre. improves e (Fin (?sc m)) (Fin (?sc x))"
          "\<forall>x \<in> set post. \<not> improves e (Fin (?sc x)) (Fin (?sc m))"
        from h(4) no have "improves e (Fin (?sc m)) (Fin (?sc m0))"
          by (rule improves_over_loser)
        with h c have "candidates (m0 # lib) = (m0 # pre) @ m # post \<and> b' = Some m
            \<and> s' = Fin (?sc m) \<and> improves e (Fin (?sc m)) s
            \<and> (\<forall>x \<in> set (m0 # pre). improves e (Fin (?sc m)) (Fin (?sc x)))
            \<and> (\<forall>x \<in> set post. \<not> improves e (Fin (?sc x)) (Fin (?sc m)))"
          by simp
        then show ?thesis by blast
      qed
    qed
  qed
qed

lemma model_library_fields:
  assumes "model_library w st = Inr (lib, st1)"
  shows "self_models (fst st1) = self_models (fst st)"
    and "self_metric (fst st1) = self_metric (fst st)"
    and "self_y_true (fst st1) = self_y_true (fst st)"
    and "self_maximize (fst st1) = self_maximize (fst st)"
    and "self_child_ensembles (fst st1) = self_child_ensembles (fst st)"
    and "self_child_ensemble_model_fraction (fst st1) = self_child_ensemble_model_fraction (fst st)"
    and "lib \<noteq> [] \<Longrightarrow> self_model_library (fst st1) = Some lib"
  using assms
  by (auto simp: model_library_def split: prod.splits option.splits list.splits sum.splits)

lemma improves_cong: "self_maximize e1 = self_maximize e \<Longrightarrow> improves e1 = improves e"
  by (intro ext) (simp add: improves_def)

lemma candidate_score_cong:
  "self_metric e1 = self_metric e \<Longrightarrow> self_y_true e1 = self_y_true e \<Longrightarrow>
     candidate_score w e1 = candidate_score w e"
  by (intro ext) (simp add: candidate_score_def)

lemma add_model_self_models:
  "add_model_self st m k = Inr st' \<Longrightarrow> self_models (fst st) = Some ms \<Longrightarrow>
     self_models (fst st') = Some (add_model ms m k)"
  by (auto simp: add_model_self_def split: prod.splits option.splits)

lemmas sample_defs = sample_world_def sample_library_def seeded_def sample_model_def
  sample_ensemble_def accuracy_def

lemmas array_defs = mscale_def mdiv_def madd_def msub_def same_shape_def online_update_def
  total_model_weights_def dict_values_def averaged_validation_predictions_def averaged_self_def

text \<open>
  C3. On a well-formed weighted model set, one round of \<open>add_models\<close> considers the library models whose validation score is
  not zero, in library order, scores the aggregate prediction of each with the metric, and
  adds one of them with weight 1: the chosen candidate is strictly better than every
  candidate before it, and no candidate after it is better than it. So the incumbent is
  replaced on strict improvement only, and of candidates with equal scores the earlier one
  is chosen.
\<close>

theorem step_add_first_best:
  assumes "step_add w st b = Inr (st', b')"
    and "model_library w st = Inr (lib, st1)"
    and "self_models (fst st) = Some ms"
    and "averaged_validation_predictions ms = Inr avg"
    and "candidates lib \<noteq> []"
    and "wms_inv ms"
  shows "\<exists>pre m post. candidates lib = pre @ m # post
      \<and> b' = Some m
      \<and> self_models (fst st') = Some (add_model ms m 1)
      \<and> (\<forall>x \<in> set pre.
            improves (fst st) (Fin (candidate_score w (fst st) avg (total_model_weights ms) m))
                              (Fin (candidate_score w (fst st) avg (total_model_weights ms) x)))
      \<and> (\<forall>x \<in> set post.
            \<not> improves (fst st) (Fin (candidate_score w (fst st) avg (total_model_weights ms) x))
                                (Fin (candidate_score w (fst st) avg (total_model_weights ms) m)))"
proof -
  let ?W = "total_model_weights ms"
  let ?e1 = "fst st1"
  let ?init = "if self_maximize ?e1 then NegInf else PosInf"
  note f = model_library_fields [OF assms(2)]
  have av: "averaged_self (fst st) = Inr avg"
    using assms(3,4) by (simp add: averaged_self_def)
  have ic: "improves ?e1 = improves (fst st)"
    using f(4) by (rule improves_cong)
  have cc: "candidate_score w ?e1 = candidate_score w (fst st)"
    using f(2,3) by (rule candidate_score_cong)
  from assms(1) av assms(2,3) obtain bb sc where
    sc: "scan_library w ?e1 avg ?W lib (b, ?init) = Inr (bb, sc)"
    by (auto simp: step_add_def split: sum.splits prod.splits)
  from scan_library_result [OF sc] have
    "\<exists>pre m post. candidates lib = pre @ m # post \<and> bb = Some m
        \<and> sc = Fin (candidate_score w ?e1 avg ?W m)
        \<and> (\<forall>x \<in> set pre. improves ?e1 (Fin (candidate_score w ?e1 avg ?W m))
                                           (Fin (candidate_score w ?e1 avg ?W x)))
        \<and> (\<forall>x \<in> set post. \<not> improves ?e1 (Fin (candidate_score w ?e1 avg ?W x))
                                              (Fin (candidate_score w ?e1 avg ?W m)))"
  proof (elim disjE exE conjE)
    assume "\<forall>x \<in> set (candidates lib). \<not> improves ?e1 (Fin (candidate_score w ?e1 avg ?W x)) ?init"
    moreover from assms(5) obtain x where "x \<in> set (candidates lib)"
      by (cases "candidates lib") auto
    ultimately have "\<not> improves ?e1 (Fin (candidate_score w ?e1 avg ?W x)) ?init" by blast
    with improves_start [of ?e1] show ?thesis by blast
  next
    fix pre m post
    assume "candidates lib = pre @ m # post" "bb = Some m"
      "sc = Fin (candidate_score w ?e1 avg ?W m)"
      "\<forall>x \<in> set pre. improves ?e1 (Fin (candidate_score w ?e1 avg ?W m))
                                   (Fin (candidate_score w ?e1 avg ?W x))"
      "\<forall>x \<in> set post. \<not> improves ?e1 (Fin (candidate_score w ?e1 avg ?W x))
                                      (Fin (candidate_score w ?e1 avg ?W m))"
    then show ?thesis by blast
  qed
  then obtain pre m post where h: "candidates lib = pre @ m # post" "bb = Some m"
      "\<forall>x \<in> set pre. improves (fst st) (Fin (candidate_score w (fst st) avg ?W m))
                                   (Fin (candidate_score w (fst st) avg ?W x))"
      "\<forall>x \<in> set post. \<not> improves (fst st) (Fin (candidate_score w (fst st) avg ?W x))
                                      (Fin (candidate_score w (fst st) avg ?W m))"
    unfolding ic cc by blast
  from assms(1) av assms(2,3) sc h(2) obtain st2 where
    a: "add_model_self st1 m 1 = Inr st2" and b': "b' = Some m"
    and s': "self_models (fst st') = self_models (fst st2)"
    by (auto simp: step_add_def split: sum.splits prod.splits)
  from f(1) assms(3) have "self_models (fst st1) = Some ms" by simp
  from add_model_self_models [OF a this] s' have "self_models (fst st') = Some (add_model ms m 1)"
    by simp
  with h b' show ?thesis by blast
qed

theorem step_add_first_best_witness:
  "step_add sample_world (sample_ensemble accuracy sample_library seeded None, []) None
     = Inr ((sample_ensemble accuracy sample_library
               (seeded @ [(2, (sample_model 2 [[0, 1]] (8 / 10), 1))]) None,
             [Info_assigned_weight 1 ''m'', Debug_ensemble_size 2 (Fin (1 / 2))]),
            Some (sample_model 2 [[0, 1]] (8 / 10)))
   \<and> candidates sample_library
       = [sample_model 1 [[1, 0]] (9 / 10)] @ sample_model 2 [[0, 1]] (8 / 10)
           # [sample_model 3 [[0, 1]] (7 / 10)]
   \<and> candidate_score sample_world (sample_ensemble accuracy sample_library seeded None)
         [[1, 0]] 1 (sample_model 2 [[0, 1]] (8 / 10))
       = candidate_score sample_world (sample_ensemble accuracy sample_library seeded None)
         [[1, 0]] 1 (sample_model 3 [[0, 1]] (7 / 10))
   \<and> (\<exists>pre m post. candidates sample_library = pre @ m # post
        \<and> Some (sample_model 2 [[0, 1]] (8 / 10)) = Some m
        \<and> (\<forall>x \<in> set pre.
              improves (sample_ensemble accuracy sample_library seeded None)
                (Fin (candidate_score sample_world
                        (sample_ensemble accuracy sample_library seeded None) [[1, 0]] 1 m))
                (Fin (candidate_score sample_world
                        (sample_ensemble accuracy sample_library seeded None) [[1, 0]] 1 x))))"
proof -
  let ?st = "(sample_ensemble accuracy sample_library seeded None, [])"
  have h2: "model_library sample_world ?st = Inr (sample_library, ?st)"
    by (simp add: model_library_def sample_defs)
  have h3: "self_models (fst ?st) = Some seeded"
    by (simp add: sample_ensemble_def)
  have h4: "averaged_validation_predictions seeded = Inr [[1, 0]]"
    by (simp add: sample_defs array_defs)
  have h5: "candidates sample_library \<noteq> []"
    by (simp add: candidates_def sample_defs)
  have h1: "step_add sample_world ?st None
     = Inr ((sample_ensemble accuracy sample_library
               (seeded @ [(2, (sample_model 2 [[0, 1]] (8 / 10), 1))]) None,
             [Info_assigned_weight 1 ''m'', Debug_ensemble_size 2 (Fin (1 / 2))]),
            Some (sample_model 2 [[0, 1]] (8 / 10)))"
    by (simp add: step_add_def model_library_def add_model_self_def add_model_def
        dict_pop_def dict_set_def sample_defs array_defs)
  have c: "candidates sample_library
       = [sample_model 1 [[1, 0]] (9 / 10)] @ sample_model 2 [[0, 1]] (8 / 10)
           # [sample_model 3 [[0, 1]] (7 / 10)]"
    by (simp add: candidates_def sample_defs)
  have t: "candidate_score sample_world (sample_ensemble accuracy sample_library seeded None)
         [[1, 0]] 1 (sample_model 2 [[0, 1]] (8 / 10))
       = candidate_score sample_world (sample_ensemble accuracy sample_library seeded None)
         [[1, 0]] 1 (sample_model 3 [[0, 1]] (7 / 10))"
    by (simp add: candidate_score_def sample_defs array_defs)
  have w: "total_model_weights seeded = 1"
    by (simp add: sample_defs array_defs)
  have h6: "wms_inv seeded"
    by (simp add: wms_inv_def keyed_def sample_defs)
  from step_add_first_best [OF h1 h2 h3 h4 h5 h6] h1 c t w show ?thesis
    by (simp only: fst_conv) blast
qed

subsection \<open>When the stepwise addition finds no candidate\<close>

lemma stack_sum_error: "stack_sum xs = Inl er \<Longrightarrow> er = ValueError"
  by (cases xs) (auto split: if_splits)

lemma averaged_self_error:
  "averaged_self e = Inl er \<Longrightarrow> er = AttributeError \<or> er = ValueError"
  by (auto simp: averaged_self_def averaged_validation_predictions_def
      split: option.splits sum.splits dest: stack_sum_error)

lemma scan_library_error:
  "scan_library w e avg W lib acc = Inl er \<Longrightarrow> er = ValueError"
proof (induction lib arbitrary: acc)
  case Nil
  then show ?case by simp
next
  case (Cons m lib)
  obtain b s where acc: "acc = (b, s)" by (cases acc)
  from Cons.prems show ?case
    unfolding acc scan_library_Cons
    by (auto split: if_splits dest: Cons.IH)
qed

lemma add_model_self_error: "add_model_self st m k = Inl er \<Longrightarrow> er = AttributeError"
  by (auto simp: add_model_self_def split: prod.splits option.splits)

lemma scan_library_no_candidates:
  "candidates lib = [] \<Longrightarrow> scan_library w e avg W lib acc = Inr acc"
proof (induction lib)
  case Nil
  then show ?case by simp
next
  case (Cons m lib)
  obtain b s where acc: "acc = (b, s)" by (cases acc)
  from Cons show ?case
    by (auto simp: candidates_def acc split: if_splits)
qed

lemma scan_library_some:
  assumes "scan_library w e avg W lib (b, if self_maximize e then NegInf else PosInf) = Inr (b', s')"
    and "candidates lib \<noteq> []"
  shows "b' \<noteq> None"
proof -
  from assms(2) obtain x where x: "x \<in> set (candidates lib)"
    by (cases "candidates lib") auto
  from scan_library_result [OF assms(1)] show ?thesis
  proof (elim disjE exE conjE)
    assume "\<forall>x \<in> set (candidates lib). \<not> improves e (Fin (candidate_score w e avg W x))
               (if self_maximize e then NegInf else PosInf)"
    with x improves_start [of e] show ?thesis by blast
  next
    fix pre m post assume "b' = Some m"
    then show ?thesis by simp
  qed
qed

lemma model_library_cached:
  "self_model_library (fst st) = Some lib \<Longrightarrow> lib \<noteq> [] \<Longrightarrow> model_library w st = Inr (lib, st)"
  by (cases lib) (auto simp: model_library_def split: prod.splits)

lemma add_model_self_library:
  "add_model_self st m k = Inr st' \<Longrightarrow> self_model_library (fst st') = self_model_library (fst st)"
  by (auto simp: add_model_self_def split: prod.splits option.splits)

lemma step_add_library:
  assumes "step_add w st b = Inr (st', b')" and "model_library w st = Inr (lib, st1)"
    and "lib \<noteq> []"
  shows "model_library w st' = Inr (lib, st')"
proof -
  from assms(1,2) obtain m st2 lg where a: "add_model_self st1 m 1 = Inr st2"
    and s: "st' = (fst st2, lg)"
    by (auto simp: step_add_def split: sum.splits prod.splits option.splits)
  from model_library_fields(7) [OF assms(2,3)] add_model_self_library [OF a] s
  have "self_model_library (fst st') = Some lib" by simp
  from model_library_cached [OF this assms(3)] show ?thesis .
qed

lemma step_add_bound:
  assumes "model_library w st = Inr (lib, st1)" and "candidates lib \<noteq> []"
  shows "step_add w st b \<noteq> Inl UnboundLocalError"
proof
  assume u: "step_add w st b = Inl UnboundLocalError"
  show False
  proof (cases "averaged_self (fst st)")
    case (Inl er)
    with u averaged_self_error [OF Inl] show False
      by (auto simp: step_add_def)
  next
    case (Inr avg)
    let ?W = "total_model_weights (the (self_models (fst st)))"
    let ?init = "if self_maximize (fst st1) then NegInf else PosInf"
    show False
    proof (cases "scan_library w (fst st1) avg ?W lib (b, ?init)")
      case (Inl er)
      with u Inr assms(1) scan_library_error [OF Inl] show False
        by (auto simp: step_add_def)
    next
      case sc: (Inr r)
      obtain b' s' where r: "r = (b', s')" by (cases r)
      from scan_library_some [OF sc [unfolded r] assms(2)] obtain m where m: "b' = Some m"
        by auto
      show False
      proof (cases "add_model_self st1 m 1")
        case (Inl er)
        with u Inr assms(1) sc r m add_model_self_error [OF Inl] show False
          by (auto simp: step_add_def)
      next
        case a: (Inr st2)
        with u Inr assms(1) sc r m show False
          by (auto simp: step_add_def split: prod.splits)
      qed
    qed
  qed
qed

lemma add_models_loop_bound:
  "model_library w st = Inr (lib, st1) \<Longrightarrow> candidates lib \<noteq> [] \<Longrightarrow>
     add_models_loop w k st b \<noteq> Inl UnboundLocalError"
proof (induction k arbitrary: st st1 b)
  case 0
  then show ?case by simp
next
  case (Suc k)
  from Suc.prems(2) have ne: "lib \<noteq> []" by (auto simp: candidates_def)
  show ?case
  proof (cases "step_add w st b")
    case (Inl er)
    with step_add_bound [OF Suc.prems, of b] show ?thesis by auto
  next
    case (Inr r)
    obtain st' b' where r: "r = (st', b')" by (cases r)
    from step_add_library [OF Inr [unfolded r] Suc.prems(1) ne]
    have "add_models_loop w k st' b' \<noteq> Inl UnboundLocalError"
      by (rule Suc.IH) (rule Suc.prems(2))
    with Inr r show ?thesis by simp
  qed
qed

text \<open>
  C10. The claim: when no library model has a validation score other than zero,
  \<open>add_models(n)\<close> with \<open>n > 0\<close> fails with an unbound-variable error. That is not the
  error when the weighted model set is empty: the weighted average is computed first, and
  stacking no array is a ValueError.
\<close>

theorem add_models_empty_set_counterexample:
  "candidates [sample_model 0 [[0, 5]] 0] = []
   \<and> add_models sample_world
       (sample_ensemble accuracy [sample_model 0 [[0, 5]] 0] [] None, []) 1 = Inl ValueError"
  by (simp add: candidates_def add_models_def step_add_def sample_defs array_defs)

text \<open>
  C10, amended: when the library can be read and the current set is well formed and its
  weighted average can be computed, \<open>add_models(n)\<close> with \<open>n > 0\<close> fails with the unbound-variable error
  exactly when no library model has a validation score other than zero; there is no check
  of that precondition and no no-op. With such a model in the library the unbound-variable
  error cannot occur, in any round.
\<close>

theorem add_models_unbound:
  assumes "0 < n"
    and "model_library w st = Inr (lib, st1)"
    and "self_models (fst st) = Some ms"
    and "averaged_validation_predictions ms = Inr avg"
    and "wms_inv ms"
  shows "add_models w st n = Inl UnboundLocalError \<longleftrightarrow> candidates lib = []"
proof
  assume "add_models w st n = Inl UnboundLocalError"
  with assms(1) add_models_loop_bound [OF assms(2), of "nat n" None]
  show "candidates lib = []"
    by (auto simp: add_models_def)
next
  assume c: "candidates lib = []"
  from assms(1) obtain k where k: "nat n = Suc k"
    by (cases "nat n") auto
  have "step_add w st None = Inl UnboundLocalError"
    using assms(2,3,4)
    by (simp add: step_add_def averaged_self_def scan_library_no_candidates [OF c])
  with assms(1) k show "add_models w st n = Inl UnboundLocalError"
    by (simp add: add_models_def)
qed

theorem add_models_unbound_witness:
  "add_models sample_world
     (sample_ensemble accuracy [sample_model 0 [[0, 5]] 0] seeded None, []) 1
     = Inl UnboundLocalError
   \<and> candidates [sample_model 0 [[0, 5]] 0] = []
   \<and> add_models sample_world (sample_ensemble accuracy sample_library seeded None, []) 2
     \<noteq> Inl UnboundLocalError
   \<and> candidates sample_library \<noteq> []"
proof -
  have a: "averaged_validation_predictions seeded = Inr [[1, 0]]"
    by (simp add: sample_defs array_defs)
  have l1: "model_library sample_world
              (sample_ensemble accuracy [sample_model 0 [[0, 5]] 0] seeded None, [])
            = Inr ([sample_model 0 [[0, 5]] 0],
                   (sample_ensemble accuracy [sample_model 0 [[0, 5]] 0] seeded None, []))"
    by (simp add: model_library_def sample_defs)
  have l2: "model_library sample_world (sample_ensemble accuracy sample_library seeded None, [])
            = Inr (sample_library, (sample_ensemble accuracy sample_library seeded None, []))"
    by (simp add: model_library_def sample_defs)
  have m: "self_models (fst (sample_ensemble accuracy lib seeded None, lg)) = Some seeded"
    for lib and lg :: "log_record list"
    by (simp add: sample_ensemble_def)
  have c1: "candidates [sample_model 0 [[0, 5]] 0] = []"
    by (simp add: candidates_def sample_defs)
  have c2: "candidates sample_library \<noteq> []"
    by (simp add: candidates_def sample_defs)
  have wi: "wms_inv seeded"
    by (simp add: wms_inv_def keyed_def sample_defs)
  from add_models_unbound [OF _ l1 m a wi, of 1] add_models_unbound [OF _ l2 m a wi, of 2] c1 c2
  show ?thesis by simp
qed

subsection \<open>Seeding\<close>

lemma add_model_self_new:
  assumes "self_models e = Some ms" and "pipeline m \<notin> fst ` set ms"
  shows "add_model_self (e, lg) m k
       = Inr (set_models e (Some (ms @ [(pipeline m, (m, k))])),
              lg @ [Info_assigned_weight k (name m)])"
proof -
  from assms(2) have n: "map_of ms (pipeline m) = None" by (simp add: map_of_eq_None_iff)
  then show ?thesis
    using assms(1) by (simp add: add_model_self_def add_model_absent dict_pop_def)
qed

lemma add_each_new:
  assumes "self_models e = Some ms"
    and "distinct (map pipeline sel)"
    and "pipeline ` set sel \<inter> fst ` set ms = {}"
  shows "add_each (e, lg) (map (\<lambda>m. (m, 1)) sel)
       = Inr (set_models e (Some (ms @ map (\<lambda>m. (pipeline m, (m, 1))) sel)),
              lg @ map (\<lambda>m. Info_assigned_weight 1 (name m)) sel)"
  using assms
proof (induction sel arbitrary: e ms lg)
  case Nil
  then show ?case by (cases e) simp
next
  case (Cons m sel)
  let ?e1 = "set_models e (Some (ms @ [(pipeline m, (m, 1))]))"
  from Cons.prems have "pipeline m \<notin> fst ` set ms" by auto
  from add_model_self_new [OF Cons.prems(1) this]
  have s: "add_model_self (e, lg) m 1 = Inr (?e1, lg @ [Info_assigned_weight 1 (name m)])" .
  have "add_each (?e1, lg @ [Info_assigned_weight 1 (name m)]) (map (\<lambda>m. (m, 1)) sel)
      = Inr (set_models ?e1 (Some ((ms @ [(pipeline m, (m, 1))])
                @ map (\<lambda>m. (pipeline m, (m, 1))) sel)),
             (lg @ [Info_assigned_weight 1 (name m)])
                @ map (\<lambda>m. Info_assigned_weight 1 (name m)) sel)"
    using Cons.prems by (intro Cons.IH) auto
  with s show ?case by (cases e) simp
qed

lemma keyed_fresh: "distinct (map pipeline sel) \<Longrightarrow> keyed (map (\<lambda>m. (pipeline m, (m, k))) sel)"
  by (simp add: keyed_def comp_def list_all_iff)

lemma wms_inv_fresh:
  "distinct (map pipeline sel) \<Longrightarrow> wms_inv (map (\<lambda>m. (pipeline m, (m, 1))) sel)"
  by (simp add: wms_inv_def keyed_fresh list_all_iff)

lemma total_fresh: "total_model_weights (map (\<lambda>m. (pipeline m, (m, 1))) sel) = int (length sel)"
  by (induction sel) (auto simp: total_model_weights_def dict_values_def)

lemma averaged_defined:
  assumes "ms \<noteq> []"
    and "\<forall>v \<in> set (dict_values ms). same_shape (predictions (fst v)) c"
  shows "\<exists>avg. averaged_validation_predictions ms = Inr avg"
proof -
  from assms(1) have "dict_values ms \<noteq> []" by (simp add: dict_values_def)
  from stack_sum_scaled [OF this assms(2)] show ?thesis
    by (auto simp: averaged_validation_predictions_def)
qed

text \<open>
  C5. \<open>build_initial_ensemble(n)\<close> with \<open>n > 0\<close>, on a library of at least \<open>n\<close> models
  with distinct pipelines (and predictions of one shape), returns without an error. It
  scores every library model by the metric on its own predictions and sorts by that score,
  descending if the metric is maximised and ascending otherwise; the weighted model set
  becomes the first \<open>n\<close> of that order, each with weight 1, so it has \<open>n\<close> entries with
  distinct pipelines and the total weight \<open>n\<close>. Whatever the set held before is dropped,
  and if it held anything a warning is logged.
\<close>

theorem build_initial_ensemble_top_n:
  assumes n: "0 < n"
    and ms0: "self_models e = Some ms0"
    and lib: "self_model_library e = Some lib"
    and len: "nat n \<le> length lib"
    and dist: "distinct (map pipeline lib)"
    and shapes: "\<forall>a \<in> set lib. \<forall>b \<in> set lib. same_shape (predictions a) (predictions b)"
    and srt: "srt = (if self_maximize e
                     then rev (sort_key (\<lambda>m. ev w (self_metric e) (self_y_true e) (predictions m)) lib)
                     else sort_key (\<lambda>m. ev w (self_metric e) (self_y_true e) (predictions m)) lib)"
  shows "\<exists>e' lg'. build_initial_ensemble w (e, lg) n = Inr (e', lg')
      \<and> self_models e' = Some (map (\<lambda>m. (pipeline m, (m, 1))) (take (nat n) srt))
      \<and> length (take (nat n) srt) = nat n
      \<and> distinct (map pipeline (take (nat n) srt))
      \<and> total_model_weights (map (\<lambda>m. (pipeline m, (m, 1))) (take (nat n) srt)) = n
      \<and> (ms0 \<noteq> [] \<longrightarrow> Warning_overwriting_ensemble \<in> set lg')
      \<and> set srt = set lib
      \<and> (if self_maximize e
          then sorted (rev (map (\<lambda>m. ev w (self_metric e) (self_y_true e) (predictions m)) srt))
          else sorted (map (\<lambda>m. ev w (self_metric e) (self_y_true e) (predictions m)) srt))"
proof -
  let ?key = "\<lambda>m. ev w (self_metric e) (self_y_true e) (predictions m)"
  let ?sel = "take (nat n) srt"
  let ?new = "map (\<lambda>m. (pipeline m, (m, 1))) ?sel"
  define e1 where "e1 = (if ms0 = [] then e else set_models e (Some []))"
  define lg1 where "lg1 = (if ms0 = [] then lg else lg @ [Warning_overwriting_ensemble])"
  have st1: "(case self_models e of
                Some (x # xs) \<Rightarrow> (set_models e (Some []), lg @ [Warning_overwriting_ensemble])
              | _ \<Rightarrow> (e, lg)) = (e1, lg1)"
    using ms0 by (cases ms0) (simp_all add: e1_def lg1_def)
  have m1: "self_models e1 = Some []" using ms0 by (simp add: e1_def)
  have f1: "self_metric e1 = self_metric e" "self_y_true e1 = self_y_true e"
    "self_maximize e1 = self_maximize e" "self_model_library e1 = Some lib"
    using lib by (simp_all add: e1_def)
  from n len have ne: "lib \<noteq> []" by auto
  have ml: "model_library w (e1, lg1) = Inr (lib, (e1, lg1))"
    by (rule model_library_cached) (simp_all add: f1 ne)
  have set_srt: "set srt = set lib" and len_srt: "length srt = length lib"
    and dist_srt: "distinct (map pipeline srt)"
    using dist by (simp_all add: srt distinct_map)
  from len len_srt have l: "length ?sel = nat n" by simp
  have d: "distinct (map pipeline ?sel)"
    using dist_srt by (simp add: take_map [symmetric] distinct_take)
  have ae: "add_each (e1, lg1) (map (\<lambda>m. (m, 1)) ?sel)
      = Inr (set_models e1 (Some ([] @ ?new)),
             lg1 @ map (\<lambda>m. Info_assigned_weight 1 (name m)) ?sel)"
    by (rule add_each_new [OF m1 d]) simp
  let ?e3 = "set_models e1 (Some ?new)"
  from n l have nn: "?new \<noteq> []" by auto
  have "\<forall>v \<in> set (dict_values ?new). same_shape (predictions (fst v)) (predictions (hd lib))"
  proof
    fix v assume "v \<in> set (dict_values ?new)"
    then have "fst v \<in> set ?sel" by (auto simp: dict_values_def)
    then have "fst v \<in> set lib" using set_srt by (auto dest: in_set_takeD)
    with shapes ne show "same_shape (predictions (fst v)) (predictions (hd lib))" by simp
  qed
  from averaged_defined [OF nn this] obtain avg where
    avg: "averaged_validation_predictions ?new = Inr avg" by blast
  have av: "averaged_self ?e3 = Inr avg"
    by (simp add: averaged_self_def avg)
  have run: "build_initial_ensemble w (e, lg) n
      = Inr (?e3, (lg1 @ map (\<lambda>m. Info_assigned_weight 1 (name m)) ?sel)
                  @ [Debug_initial_ensemble_score (ev w (self_metric e) (self_y_true e) avg)])"
    using n ae av unfolding srt
    by (cases "self_maximize e") (simp_all add: build_initial_ensemble_def st1 ml f1 Let_def)
  have tot: "total_model_weights ?new = n"
    using n l by (simp add: total_fresh)
  have warn: "ms0 \<noteq> [] \<longrightarrow> Warning_overwriting_ensemble
      \<in> set ((lg1 @ map (\<lambda>m. Info_assigned_weight 1 (name m)) ?sel)
                  @ [Debug_initial_ensemble_score (ev w (self_metric e) (self_y_true e) avg)])"
    by (simp add: lg1_def)
  have so: "if self_maximize e then sorted (rev (map ?key srt)) else sorted (map ?key srt)"
    by (simp add: srt rev_map [symmetric])
  from run tot warn so l d set_srt show ?thesis
    by simp
qed


theorem build_initial_ensemble_top_n_witness:
  "0 < (2 :: int) \<and> nat 2 \<le> length sample_library \<and> distinct (map pipeline sample_library)
   \<and> seeded \<noteq> []
   \<and> build_initial_ensemble sample_world
        (sample_ensemble accuracy sample_library seeded None, []) 2
       = Inr (sample_ensemble accuracy sample_library
                [(0, (sample_model 0 [[0, 5]] 0, 1)), (3, (sample_model 3 [[0, 1]] (7 / 10), 1))]
                None,
              [Warning_overwriting_ensemble, Info_assigned_weight 1 ''m'',
               Info_assigned_weight 1 ''m'', Debug_initial_ensemble_score 3])
   \<and> total_model_weights
        [(0, (sample_model 0 [[0, 5]] 0, 1)), (3, (sample_model 3 [[0, 1]] (7 / 10), 1))] = 2"
proof -
  let ?e = "sample_ensemble accuracy sample_library seeded None"
  have h1: "0 < (2 :: int)" by simp
  have h2: "self_models ?e = Some seeded" by (simp add: sample_ensemble_def)
  have h3: "self_model_library ?e = Some sample_library" by (simp add: sample_ensemble_def)
  have h4: "nat 2 \<le> length sample_library" by (simp add: sample_library_def)
  have h5: "distinct (map pipeline sample_library)" by (simp add: sample_defs)
  have h6: "\<forall>a \<in> set sample_library. \<forall>b \<in> set sample_library.
              same_shape (predictions a) (predictions b)"
    by (simp add: sample_defs same_shape_def)
  have s: "(if self_maximize ?e
            then rev (sort_key (\<lambda>m. ev sample_world (self_metric ?e) (self_y_true ?e) (predictions m))
                        sample_library)
            else sort_key (\<lambda>m. ev sample_world (self_metric ?e) (self_y_true ?e) (predictions m))
                        sample_library)
         = [sample_model 0 [[0, 5]] 0, sample_model 3 [[0, 1]] (7 / 10),
            sample_model 2 [[0, 1]] (8 / 10), sample_model 1 [[1, 0]] (9 / 10)]"
    by (simp add: sample_defs)
  have ne: "seeded \<noteq> []" by (simp add: seeded_def)
  from build_initial_ensemble_top_n [OF h1 h2 h3 h4 h5 h6 refl, of sample_world "[]"]
  obtain e' lg' where
    r: "build_initial_ensemble sample_world (?e, []) 2 = Inr (e', lg')"
    and m: "self_models e' = Some [(0, (sample_model 0 [[0, 5]] 0, 1)),
                                   (3, (sample_model 3 [[0, 1]] (7 / 10), 1))]"
    and t: "total_model_weights [(0, (sample_model 0 [[0, 5]] 0, 1)),
                                 (3, (sample_model 3 [[0, 1]] (7 / 10), 1))] = 2"
    and wn: "Warning_overwriting_ensemble \<in> set lg'"
    unfolding s using ne by (auto simp: sample_model_def numeral_2_eq_2)
  have d: "build_initial_ensemble sample_world (?e, []) 2
       = Inr (sample_ensemble accuracy sample_library
                [(0, (sample_model 0 [[0, 5]] 0, 1)), (3, (sample_model 3 [[0, 1]] (7 / 10), 1))]
                None,
              [Warning_overwriting_ensemble, Info_assigned_weight 1 ''m'',
               Info_assigned_weight 1 ''m'', Debug_initial_ensemble_score 3])"
    by (simp add: build_initial_ensemble_def model_library_def add_model_self_def add_model_def
        dict_pop_def dict_set_def sample_defs array_defs numeral_2_eq_2)
  from h1 h4 h5 ne d t show ?thesis by simp
qed

subsection \<open>Adding models keeps the set well formed\<close>

lemma map_of_without:
  "map_of (filter (\<lambda>kv. fst kv \<noteq> k) ms) p = (if p = k then None else map_of ms p)"
  by (induction ms) auto

lemma keys_without: "k \<notin> fst ` set (filter (\<lambda>kv. fst kv \<noteq> k) ms)"
  by auto

lemma keyed_add_model:
  assumes "keyed ms"
  shows "keyed (add_model ms c k)"
proof (cases "map_of ms (pipeline c)")
  case None
  then have "pipeline c \<notin> fst ` set ms" by (simp add: map_of_eq_None_iff)
  with assms None show ?thesis
    by (simp add: add_model_absent keyed_def)
next
  case (Some u)
  obtain m' w' where u: "u = (m', w')" by (cases u)
  from Some u have "(pipeline c, (m', w')) \<in> set ms" by (simp add: map_of_SomeD)
  with assms have p: "pipeline m' = pipeline c"
    by (auto simp: keyed_def list_all_iff)
  from assms have "distinct (map fst (filter (\<lambda>kv. fst kv \<noteq> pipeline c) ms))"
    by (simp add: keyed_def distinct_map_filter)
  moreover from assms have "list_all (\<lambda>(k, (m, w)). k = pipeline m)
      (filter (\<lambda>kv. fst kv \<noteq> pipeline c) ms)"
    by (auto simp: keyed_def list_all_iff)
  ultimately show ?thesis
    using add_model_present [OF assms, of c m' w' k] Some u p
    by (auto simp: keyed_def)
qed

lemma weight_of_add_model:
  assumes "keyed ms"
  shows "weight_of (add_model ms c k) p = weight_of ms p + (if pipeline c = p then k else 0)"
proof (cases "map_of ms (pipeline c)")
  case None
  then show ?thesis
    by (auto simp: add_model_absent weight_of_def map_add_def split: option.splits)
next
  case (Some u)
  obtain m' w' where u: "u = (m', w')" by (cases u)
  show ?thesis
    using add_model_present [OF assms, of c m' w' k] Some u
    by (auto simp: weight_of_def map_add_def map_of_without split: option.splits)
qed

lemma weights_add_model:
  assumes "keyed ms" and "list_all (\<lambda>(k, (m, w)). 1 \<le> w) ms" and "1 \<le> k"
  shows "list_all (\<lambda>(k, (m, w)). 1 \<le> w) (add_model ms c k)"
proof (cases "map_of ms (pipeline c)")
  case None
  with assms show ?thesis by (simp add: add_model_absent)
next
  case (Some u)
  obtain m' w' where u: "u = (m', w')" by (cases u)
  from Some u have "(pipeline c, (m', w')) \<in> set ms" by (simp add: map_of_SomeD)
  with assms(2) have "1 \<le> w'" by (auto simp: list_all_iff)
  with assms(2,3) show ?thesis
    using add_model_present [OF assms(1), of c m' w' k] Some u
    by (auto simp: list_all_iff)
qed

lemma wms_inv_add_model: "wms_inv ms \<Longrightarrow> 1 \<le> k \<Longrightarrow> wms_inv (add_model ms c k)"
  by (simp add: wms_inv_def keyed_add_model weights_add_model)

lemma length_add_model_present:
  assumes "keyed ms" and "map_of ms (pipeline c) = Some (m', w')"
  shows "length (add_model ms c k) = length ms
       \<and> map_of (add_model ms c k) (pipeline c) = Some (m', w' + k)"
proof -
  from assms(1) have d: "distinct (map fst ms)" by (simp add: keyed_def)
  have "(\<Sum>x \<leftarrow> ms. (1::nat))
      = 1 + (\<Sum>x \<leftarrow> filter (\<lambda>kv. fst kv \<noteq> pipeline c) ms. 1)"
    using assms(2) by (rule sum_list_pop [OF d])
  then have "length ms = Suc (length (filter (\<lambda>kv. fst kv \<noteq> pipeline c) ms))"
    by (simp add: sum_list_triv)
  then show ?thesis
    using add_model_present [OF assms, of k]
    by (simp add: map_add_def map_of_without)
qed

subsection \<open>Bagging: the merge\<close>

lemma add_pairs_Nil [simp]: "add_pairs ms [] = ms"
  by (simp add: add_pairs_def)

lemma add_pairs_Cons [simp]: "add_pairs ms ((m, k) # rest) = add_pairs (add_model ms m k) rest"
  by (simp add: add_pairs_def)

lemma add_pairs_append: "add_pairs ms (xs @ ys) = add_pairs (add_pairs ms xs) ys"
  by (simp add: add_pairs_def)

lemma keyed_add_pairs: "keyed ms \<Longrightarrow> keyed (add_pairs ms pairs)"
  by (induction pairs arbitrary: ms) (auto simp: keyed_add_model)

lemma total_add_pairs:
  "keyed ms \<Longrightarrow> total_model_weights (add_pairs ms pairs)
     = total_model_weights ms + sum_list (map snd pairs)"
  by (induction pairs arbitrary: ms) (auto simp: keyed_add_model total_add_model)

lemma weight_of_add_pairs:
  "keyed ms \<Longrightarrow> weight_of (add_pairs ms pairs) p
     = weight_of ms p + (\<Sum>(m, k) \<leftarrow> pairs. if pipeline m = p then k else 0)"
  by (induction pairs arbitrary: ms) (auto simp: keyed_add_model weight_of_add_model)

lemma add_model_self_result:
  "add_model_self st m k = Inr st' \<Longrightarrow>
     \<exists>ms. self_models (fst st) = Some ms \<and> self_models (fst st') = Some (add_model ms m k)
        \<and> self_child_ensembles (fst st') = self_child_ensembles (fst st)"
  by (auto simp: add_model_self_def split: prod.splits option.splits)

lemma add_each_result:
  "add_each st pairs = Inr st' \<Longrightarrow> self_models (fst st) = Some ms \<Longrightarrow>
     self_models (fst st') = Some (add_pairs ms pairs)
     \<and> self_child_ensembles (fst st') = self_child_ensembles (fst st)"
proof (induction pairs arbitrary: st ms)
  case Nil
  then show ?case by simp
next
  case (Cons a pairs)
  obtain m k where a: "a = (m, k)" by (cases a)
  from Cons.prems(1) a obtain st1 where s1: "add_model_self st m k = Inr st1"
    and r: "add_each st1 pairs = Inr st'"
    by (auto split: sum.splits)
  from add_model_self_result [OF s1] Cons.prems(2)
  have m1: "self_models (fst st1) = Some (add_model ms m k)"
    and c1: "self_child_ensembles (fst st1) = self_child_ensembles (fst st)"
    by auto
  from Cons.IH [OF r m1] c1 a show ?case by simp
qed

lemma merge_children_result:
  "merge_children st cs = Inr st' \<Longrightarrow> self_models (fst st) = Some ms \<Longrightarrow>
     list_all (\<lambda>c. self_models c \<noteq> None) cs
     \<and> self_models (fst st') = Some (add_pairs ms (concat (map child_pairs cs)))
     \<and> self_child_ensembles (fst st') = self_child_ensembles (fst st)"
proof (induction cs arbitrary: st ms)
  case Nil
  then show ?case by simp
next
  case (Cons c cs)
  from Cons.prems(1) obtain cm st1 where cm: "self_models c = Some cm"
    and s1: "add_each st (dict_values cm) = Inr st1"
    and r: "merge_children st1 cs = Inr st'"
    by (auto split: option.splits sum.splits)
  from add_each_result [OF s1 Cons.prems(2)]
  have m1: "self_models (fst st1) = Some (add_pairs ms (dict_values cm))"
    and c1: "self_child_ensembles (fst st1) = self_child_ensembles (fst st)"
    by auto
  from Cons.IH [OF r m1] c1 cm show ?case
    by (simp add: child_pairs_def add_pairs_append)
qed

lemma total_children:
  "list_all (\<lambda>c. self_models c \<noteq> None) cs \<Longrightarrow>
     sum_list (map snd (concat (map child_pairs cs)))
     = (\<Sum>c \<leftarrow> cs. total_model_weights (the (self_models c)))"
  by (induction cs) (auto simp: child_pairs_def total_model_weights_def)

lemma total_empty: "total_model_weights [] = 0"
  by (simp add: total_model_weights_def dict_values_def)

text \<open>
  C8. When \<open>build_\<close> returns, the parent's weighted model set is what adding every
  (model, weight) pair of every child's set, child after child, makes of the empty set:
  the set the parent had before plays no part. The set has one entry per pipeline, the
  weight of a pipeline is the sum of the weights of the children's pairs with that
  pipeline, and the parent's total weight is the sum of the children's total weights.
\<close>

theorem build_merges_children:
  assumes "build w st n_ensembles start_size total_size = Inr (e', lg')"
  shows "\<exists>cs merged. self_child_ensembles e' = Some cs
      \<and> list_all (\<lambda>c. self_models c \<noteq> None) cs
      \<and> self_models e' = Some merged
      \<and> merged = add_pairs [] (concat (map child_pairs cs))
      \<and> keyed merged
      \<and> (\<forall>p. weight_of merged p
               = (\<Sum>(m, k) \<leftarrow> concat (map child_pairs cs). if pipeline m = p then k else 0))
      \<and> total_model_weights merged = (\<Sum>c \<leftarrow> cs. total_model_weights (the (self_models c)))"
proof -
  from assms obtain e1 lg1 cs where
    cs: "self_child_ensembles e1 = Some cs"
    and mg: "merge_children (set_models e1 (Some []), lg1) cs = Inr (e', lg')"
    by (auto simp: build_def split: sum.splits prod.splits option.splits)
  have k0: "keyed []" by (simp add: keyed_def)
  from merge_children_result [OF mg, of "[]"]
  have la: "list_all (\<lambda>c. self_models c \<noteq> None) cs"
    and m: "self_models e' = Some (add_pairs [] (concat (map child_pairs cs)))"
    and c: "self_child_ensembles e' = Some cs"
    using cs by simp_all
  have t: "total_model_weights (add_pairs [] (concat (map child_pairs cs)))
      = (\<Sum>c \<leftarrow> cs. total_model_weights (the (self_models c)))"
    using total_add_pairs [OF k0, of "concat (map child_pairs cs)"] total_children [OF la]
      total_empty
    by simp
  have wt: "weight_of (add_pairs [] (concat (map child_pairs cs))) p
      = (\<Sum>(m, k) \<leftarrow> concat (map child_pairs cs). if pipeline m = p then k else 0)" for p
    using weight_of_add_pairs [OF k0] by (simp add: weight_of_def)
  from c la m keyed_add_pairs [OF k0] wt t show ?thesis by blast
qed



theorem build_merges_children_witness:
  "map_sum id fst (build sample_world (sample_ensemble accuracy sample_library seeded None, []) 2 1 2)
     = Inr (set_child_ensembles
              (sample_ensemble accuracy sample_library
                 [(1, (sample_model 1 [[1, 0]] (9 / 10), 4))] None)
              (Some [sample_ensemble accuracy [sample_model 1 [[1, 0]] (9 / 10)]
                       [(1, (sample_model 1 [[1, 0]] (9 / 10), 2))] None,
                     sample_ensemble accuracy [sample_model 1 [[1, 0]] (9 / 10)]
                       [(1, (sample_model 1 [[1, 0]] (9 / 10), 2))] None]))
   \<and> total_model_weights [(1, (sample_model 1 [[1, 0]] (9 / 10), 4))]
       = total_model_weights [(1, (sample_model 1 [[1, 0]] (9 / 10), 2))]
         + total_model_weights [(1, (sample_model 1 [[1, 0]] (9 / 10), 2))]"
proof -
  let ?A = "sample_model 1 [[1, 0]] (9 / 10)"
  let ?c = "sample_ensemble accuracy [?A] [(1, (?A, 2))] None"
  let ?e' = "set_child_ensembles (sample_ensemble accuracy sample_library [(1, (?A, 4))] None)
               (Some [?c, ?c])"
  let ?run = "build sample_world (sample_ensemble accuracy sample_library seeded None, []) 2 1 2"
  have d: "map_sum id fst ?run = Inr ?e'"
    by (simp add: build_def build_round_def model_library_def init_def py_int_def
        build_initial_ensemble_def add_models_def step_add_def add_model_self_def add_model_def
        dict_pop_def dict_set_def sample_defs array_defs numeral_2_eq_2 upt_rec)
  then obtain lg where r: "?run = Inr (?e', lg)"
    by (cases ?run) auto
  from build_merges_children [OF r] obtain cs merged where
    "self_child_ensembles ?e' = Some cs" "self_models ?e' = Some merged"
    "total_model_weights merged = (\<Sum>c \<leftarrow> cs. total_model_weights (the (self_models c)))"
    by blast
  then have "total_model_weights [(1, (?A, 4))]
       = total_model_weights [(1, (?A, 2))] + total_model_weights [(1, (?A, 2))]"
    by (auto simp: sample_ensemble_def)
  with d show ?thesis by simp
qed

subsection \<open>The weighted model set across calls\<close>

lemma wms_inv_add_pairs:
  "wms_inv ms \<Longrightarrow> \<forall>v \<in> set pairs. 1 \<le> snd v \<Longrightarrow> wms_inv (add_pairs ms pairs)"
  by (induction pairs arbitrary: ms) (auto simp: wms_inv_add_model)

lemma wms_inv_empty: "wms_inv []"
  by (simp add: wms_inv_def keyed_def)

lemma add_each_library:
  "add_each st pairs = Inr st' \<Longrightarrow> self_model_library (fst st') = self_model_library (fst st)"
proof (induction pairs arbitrary: st)
  case Nil
  then show ?case by simp
next
  case (Cons a pairs)
  obtain m k where a: "a = (m, k)" by (cases a)
  from Cons.prems a obtain st1 where s1: "add_model_self st m k = Inr st1"
    and r: "add_each st1 pairs = Inr st'"
    by (auto split: sum.splits)
  from Cons.IH [OF r] add_model_self_library [OF s1] show ?case by simp
qed

lemma seed_result:
  assumes "build_initial_ensemble w (e, lg) n = Inr (e', lg')"
    and "self_models e = Some ms0"
  shows "\<exists>lib sel. self_model_library e' = Some lib \<and> length sel = min (nat n) (length lib)
      \<and> 0 < n
      \<and> self_models e' = Some (add_pairs [] (map (\<lambda>m. (m, 1)) sel))
      \<and> self_child_ensembles e' = self_child_ensembles e"
proof -
  define st1 where "st1 = (case self_models e of
       Some (x # xs) \<Rightarrow> (set_models e (Some []), lg @ [Warning_overwriting_ensemble])
     | _ \<Rightarrow> (e, lg))"
  have m1: "self_models (fst st1) = Some []"
    and c1: "self_child_ensembles (fst st1) = self_child_ensembles e"
    using assms(2) by (cases ms0; simp add: st1_def)+
  from assms(1) have n: "0 < n"
    by (auto simp: build_initial_ensemble_def split: if_splits)
  from assms(1) n obtain lib st2 where ml: "model_library w st1 = Inr (lib, st2)"
    by (auto simp: build_initial_ensemble_def st1_def [symmetric] split: sum.splits)
  note f = model_library_fields [OF ml]
  let ?key = "\<lambda>m. ev w (self_metric (fst st2)) (self_y_true (fst st2)) (predictions m)"
  define sel where "sel = take (nat n)
      (if self_maximize (fst st2) then rev (sort_key ?key lib) else sort_key ?key lib)"
  from assms(1) n ml obtain lg3 avg where
    ae: "add_each st2 (map (\<lambda>m. (m, 1)) sel) = Inr (e', lg3)"
    and av: "averaged_self e' = Inr avg"
    by (auto simp: build_initial_ensemble_def st1_def [symmetric] sel_def Let_def
        split: sum.splits prod.splits)
  from f(1) m1 have m2: "self_models (fst st2) = Some []" by simp
  from add_each_result [OF ae m2]
  have m3: "self_models e' = Some (add_pairs [] (map (\<lambda>m. (m, 1)) sel))"
    and c3: "self_child_ensembles e' = self_child_ensembles (fst st2)"
    by simp_all
  have ne: "lib \<noteq> []"
  proof
    assume "lib = []"
    then have "sel = []" by (simp add: sel_def)
    with m3 av show False
      by (simp add: averaged_self_def averaged_validation_predictions_def dict_values_def)
  qed
  from f(7) [OF ne] add_each_library [OF ae]
  have l3: "self_model_library e' = Some lib" by simp
  have "length sel = min (nat n) (length lib)"
    by (simp add: sel_def min.commute)
  with l3 n m3 c3 f(5) c1 show ?thesis by auto
qed

lemma total_add_ones:
  "keyed ms \<Longrightarrow> total_model_weights (add_pairs ms (map (\<lambda>m. (m, 1)) sel))
     = total_model_weights ms + int (length sel)"
  by (simp add: total_add_pairs comp_def sum_list_triv)

lemma seed_invariant:
  assumes "build_initial_ensemble w (e, lg) n = Inr (e', lg')" and "ens_inv e"
  shows "ens_inv e' \<and> total_self e' = tally e' (Seed n) c"
proof -
  from assms(2) obtain ms0 where "self_models e = Some ms0"
    by (auto simp: ens_inv_def set_ok_def split: option.splits)
  from seed_result [OF assms(1) this] obtain lib sel where
    l: "self_model_library e' = Some lib" and len: "length sel = min (nat n) (length lib)"
    and n: "0 < n"
    and m: "self_models e' = Some (add_pairs [] (map (\<lambda>m. (m, 1)) sel))"
    and c: "self_child_ensembles e' = self_child_ensembles e"
    by blast
  have "wms_inv (add_pairs [] (map (\<lambda>m. (m, 1)) sel))"
    by (rule wms_inv_add_pairs) (auto simp: wms_inv_empty)
  with m c assms(2) have i: "ens_inv e'"
    by (simp add: ens_inv_def set_ok_def)
  have k0: "keyed []" by (simp add: keyed_def)
  from n len have "int (length sel) = min n (int (length lib))" by auto
  with total_add_ones [OF k0, of sel] m l have "total_self e' = tally e' (Seed n) c"
    by (simp add: total_self_def total_empty)
  with i show ?thesis by simp
qed

lemma step_add_result:
  assumes "step_add w st b = Inr (st', b')"
  shows "\<exists>ms m. self_models (fst st) = Some ms
      \<and> self_models (fst st') = Some (add_model ms m 1)
      \<and> self_child_ensembles (fst st') = self_child_ensembles (fst st)"
proof -
  from assms obtain lib st1 m st2 lg where ml: "model_library w st = Inr (lib, st1)"
    and a: "add_model_self st1 m 1 = Inr st2" and s: "st' = (fst st2, lg)"
    by (auto simp: step_add_def split: sum.splits prod.splits option.splits)
  note f = model_library_fields [OF ml]
  from add_model_self_result [OF a] f(1,5) s show ?thesis by auto
qed

lemma step_add_invariant:
  assumes "step_add w st b = Inr (st', b')" and "ens_inv (fst st)"
  shows "ens_inv (fst st') \<and> total_self (fst st') = total_self (fst st) + 1"
proof -
  from step_add_result [OF assms(1)] obtain ms m where
    m0: "self_models (fst st) = Some ms"
    and m1: "self_models (fst st') = Some (add_model ms m 1)"
    and c: "self_child_ensembles (fst st') = self_child_ensembles (fst st)"
    by blast
  from assms(2) m0 have i: "wms_inv ms" by (simp add: ens_inv_def set_ok_def)
  then have k: "keyed ms" by (simp add: wms_inv_def)
  from wms_inv_add_model [OF i, of 1 m] m1 c assms(2) have "ens_inv (fst st')"
    by (simp add: ens_inv_def set_ok_def)
  moreover from total_add_model [OF k, of m 1] m0 m1
  have "total_self (fst st') = total_self (fst st) + 1"
    by (simp add: total_self_def)
  ultimately show ?thesis by simp
qed

lemma add_models_loop_invariant:
  "add_models_loop w k st b = Inr st' \<Longrightarrow> ens_inv (fst st) \<Longrightarrow>
     ens_inv (fst st') \<and> total_self (fst st') = total_self (fst st) + int k"
proof (induction k arbitrary: st b)
  case 0
  then show ?case by simp
next
  case (Suc k)
  from Suc.prems(1) obtain st1 b1 where s: "step_add w st b = Inr (st1, b1)"
    and r: "add_models_loop w k st1 b1 = Inr st'"
    by (auto split: sum.splits)
  from step_add_invariant [OF s Suc.prems(2)]
  have i: "ens_inv (fst st1)" and t: "total_self (fst st1) = total_self (fst st) + 1"
    by simp_all
  from Suc.IH [OF r i] t show ?case by simp
qed

lemma add_models_invariant:
  assumes "add_models w st n = Inr st'" and "ens_inv (fst st)"
  shows "ens_inv (fst st') \<and> total_self (fst st') = tally (fst st') (Step_add n) (total_self (fst st))"
proof -
  from assms(1) have n: "0 < n" and l: "add_models_loop w (nat n) st None = Inr st'"
    by (auto simp: add_models_def split: if_splits)
  from add_models_loop_invariant [OF l assms(2)] n show ?thesis by simp
qed

lemma fetch_subset_children:
  "fetch_subset w st idxs = Inr (ms, st') \<Longrightarrow>
     self_child_ensembles (fst st') = self_child_ensembles (fst st)
     \<and> self_metric (fst st') = self_metric (fst st)"
proof (induction idxs arbitrary: st ms)
  case Nil
  then show ?case by simp
next
  case (Cons i idxs)
  from Cons.prems obtain lib st1 ms1 where ml: "model_library w st = Inr (lib, st1)"
    and r: "fetch_subset w st1 idxs = Inr (ms1, st')"
    by (auto split: sum.splits prod.splits if_splits)
  from Cons.IH [OF r] model_library_fields(2,5) [OF ml] show ?case by simp
qed

lemma init_inv: "init me yt (Some lib) dir = Inr child \<Longrightarrow> ens_inv child"
  by (auto simp: init_def ens_inv_def set_ok_def wms_inv_empty)

lemma build_round_children:
  assumes "build_round w n_ensembles start_size total_size st i = Inr st'"
  shows "\<exists>cs child. self_child_ensembles (fst st) = Some cs
      \<and> self_child_ensembles (fst st') = Some (cs @ [child]) \<and> set_ok child"
proof -
  let ?st0 = "(fst st, snd st @ [Debug_constructing_ensemble i n_ensembles])"
  from assms obtain lib1 st1 where l1: "model_library w ?st0 = Inr (lib1, st1)"
    by (auto simp: build_round_def split: sum.splits)
  let ?n = "py_int (self_child_ensemble_model_fraction (fst st1) * of_nat (length lib1))"
  from assms l1 obtain lib2 st2 where l2: "model_library w st1 = Inr (lib2, st2)"
    by (auto simp: build_round_def Let_def split: sum.splits)
  from assms l1 l2 obtain subset e3 lg3 where
    fs: "fetch_subset w st2 (random_choice w i (length lib2) (nat ?n)) = Inr (subset, (e3, lg3))"
    by (auto simp: build_round_def Let_def split: sum.splits if_splits)
  from assms l1 l2 fs obtain child c1 child2 lg5 cs where
    ini: "init (self_metric e3) (self_y_true e3) (Some subset) None = Inr child"
    and bi: "build_initial_ensemble w (child, lg3) start_size = Inr c1"
    and am: "add_models w c1 (total_size - start_size) = Inr (child2, lg5)"
    and cs: "self_child_ensembles e3 = Some cs"
    and st': "st' = (set_child_ensembles e3 (Some (cs @ [child2])), lg5)"
    by (auto simp: build_round_def Let_def split: sum.splits if_splits option.splits)
  obtain e1' lg1' where c1: "c1 = (e1', lg1')" by (cases c1)
  from seed_invariant [OF bi [unfolded c1] init_inv [OF ini], of 0]
  have "ens_inv (fst c1)" by (simp add: c1)
  from add_models_invariant [OF am this] have "set_ok child2"
    by (simp add: ens_inv_def)
  moreover from fetch_subset_children [OF fs] model_library_fields(5) [OF l2]
    model_library_fields(5) [OF l1] cs
  have "self_child_ensembles (fst st) = Some cs" by simp
  ultimately show ?thesis using st' by simp
qed

lemma build_rounds_children:
  "build_rounds w n_ensembles start_size total_size st is = Inr st' \<Longrightarrow>
     (case self_child_ensembles (fst st) of None \<Rightarrow> True | Some cs \<Rightarrow> list_all set_ok cs) \<Longrightarrow>
     (case self_child_ensembles (fst st') of None \<Rightarrow> True | Some cs \<Rightarrow> list_all set_ok cs)"
proof (induction "is" arbitrary: st)
  case Nil
  then show ?case by simp
next
  case (Cons i "is")
  from Cons.prems(1) obtain st1 where
    r: "build_round w n_ensembles start_size total_size st i = Inr st1"
    and rs: "build_rounds w n_ensembles start_size total_size st1 is = Inr st'"
    by (auto split: sum.splits)
  from build_round_children [OF r] Cons.prems(2)
  have "case self_child_ensembles (fst st1) of None \<Rightarrow> True | Some cs \<Rightarrow> list_all set_ok cs"
    by auto
  from Cons.IH [OF rs this] show ?case .
qed

lemma child_pairs_weights:
  "list_all set_ok cs \<Longrightarrow> \<forall>v \<in> set (concat (map child_pairs cs)). 1 \<le> snd v"
  by (fastforce simp: list_all_iff set_ok_def child_pairs_def dict_values_def wms_inv_def
      split: option.splits)

lemma total_self_children:
  "list_all set_ok cs \<Longrightarrow>
     sum_list (map snd (concat (map child_pairs cs))) = (\<Sum>c \<leftarrow> cs. total_self c)"
  by (induction cs)
    (auto simp: child_pairs_def total_self_def total_model_weights_def set_ok_def
      split: option.splits)

lemma build_invariant:
  assumes "build w (e, lg) n_ensembles start_size total_size = Inr (e', lg')" and "ens_inv e"
  shows "ens_inv e' \<and> total_self e' = tally e' (Bagging n_ensembles start_size total_size) c"
proof -
  from assms(1) obtain e1 lg1 cs where
    br: "build_rounds w n_ensembles start_size total_size (e, lg) [0 ..< nat n_ensembles]
          = Inr (e1, lg1)"
    and cs: "self_child_ensembles e1 = Some cs"
    and mg: "merge_children (set_models e1 (Some []), lg1) cs = Inr (e', lg')"
    by (auto simp: build_def split: sum.splits prod.splits option.splits)
  from build_rounds_children [OF br] assms(2) cs have ok: "list_all set_ok cs"
    by (simp add: ens_inv_def)
  from merge_children_result [OF mg, of "[]"] cs
  have m: "self_models e' = Some (add_pairs [] (concat (map child_pairs cs)))"
    and c: "self_child_ensembles e' = Some cs"
    by simp_all
  have k0: "keyed []" by (simp add: keyed_def)
  have "wms_inv (add_pairs [] (concat (map child_pairs cs)))"
    using wms_inv_empty child_pairs_weights [OF ok] by (rule wms_inv_add_pairs)
  with m c ok have i: "ens_inv e'"
    by (simp add: ens_inv_def set_ok_def)
  have "total_self e' = total_model_weights (add_pairs [] (concat (map child_pairs cs)))"
    using m by (simp add: total_self_def)
  with total_add_pairs [OF k0, of "concat (map child_pairs cs)"] total_self_children [OF ok] c
  have "total_self e' = tally e' (Bagging n_ensembles start_size total_size) c"
    by (simp add: total_empty)
  with i show ?thesis by simp
qed

lemma apply_op_invariant:
  assumes "apply_op w st x = Inr st'" and "ens_inv (fst st)"
  shows "ens_inv (fst st') \<and> total_self (fst st') = tally (fst st') x (total_self (fst st))"
proof (cases x)
  case (Seed n)
  obtain e lg where st: "st = (e, lg)" by (cases st)
  obtain e' lg' where st': "st' = (e', lg')" by (cases st')
  from assms Seed seed_invariant [of w e lg n e' lg' "total_self e"] show ?thesis
    by (simp add: st st')
next
  case (Step_add n)
  with assms add_models_invariant [of w st n st'] show ?thesis by simp
next
  case (Bagging ne s t)
  obtain e lg where st: "st = (e, lg)" by (cases st)
  obtain e' lg' where st': "st' = (e', lg')" by (cases st')
  from assms Bagging build_invariant [of w e lg ne s t e' lg' "total_self e"] show ?thesis
    by (simp add: st st')
qed

lemma run_ops_invariant:
  "run_ops w (st, c) ops = Inr (st', c') \<Longrightarrow> ens_inv (fst st) \<Longrightarrow> total_self (fst st) = c \<Longrightarrow>
     ens_inv (fst st') \<and> total_self (fst st') = c'"
proof (induction ops arbitrary: st c)
  case Nil
  then show ?case by simp
next
  case (Cons x ops)
  from Cons.prems(1) obtain st1 where a: "apply_op w st x = Inr st1"
    and r: "run_ops w (st1, tally (fst st1) x c) ops = Inr (st', c')"
    by (auto split: sum.splits)
  from apply_op_invariant [OF a Cons.prems(2)] Cons.prems(3)
  have "ens_inv (fst st1)" and "total_self (fst st1) = tally (fst st1) x c"
    by simp_all
  from Cons.IH [OF r this] show ?case .
qed

lemmas run_defs = build_initial_ensemble_def add_models_def step_add_def model_library_def
  add_model_self_def add_model_def dict_pop_def dict_set_def

text \<open>
  C6. The claim: after any sequence of seedings, stepwise additions and bagged builds the
  set has one entry per pipeline with a weight of at least 1, adding a model that is
  present raises its weight, and the total weight is the number of additions performed,
  a seeding with \<open>n\<close> counting as \<open>n\<close>. The count fails because a seeding empties the
  set first: after two seedings with 1 the total weight is 1, not 2.
\<close>

theorem total_weight_counterexample:
  "run_ops sample_world ((sample_ensemble accuracy sample_library [] None, []), 0)
     [Seed 1, Seed 1]
     = Inr ((sample_ensemble accuracy sample_library
               [(0, (sample_model 0 [[0, 5]] 0, 1))] None,
             [Info_assigned_weight 1 ''m'', Debug_initial_ensemble_score 5,
              Warning_overwriting_ensemble,
              Info_assigned_weight 1 ''m'', Debug_initial_ensemble_score 5]), 1)
   \<and> total_model_weights [(0, (sample_model 0 [[0, 5]] 0, 1))] = 1
   \<and> additions_performed (Seed 1) + additions_performed (Seed 1) = 2"
  by (simp add: run_defs sample_defs array_defs)

text \<open>
  C6, amended: starting from an ensemble whose set (and whose children's sets) are well
  formed, after any sequence of calls that all return, the set has one entry per pipeline,
  each stored under the pipeline of its model with a weight of at least 1; adding a model
  whose pipeline is present keeps the number of entries and adds to that entry's weight;
  and the total weight is the tally of additions since the set was last emptied: a seeding
  empties the set and adds \<open>n\<close> models, or the whole library if it has fewer; each stepwise
  addition adds one; a bagged build empties the set and adds the weights of its children.
\<close>

theorem weighted_set_after_calls:
  assumes "ens_inv e"
    and "run_ops w ((e, lg), total_self e) ops = Inr ((e', lg'), c')"
  shows "\<exists>ms. self_models e' = Some ms
      \<and> distinct (map fst ms)
      \<and> (\<forall>(p, (m, k)) \<in> set ms. p = pipeline m \<and> 1 \<le> k)
      \<and> total_model_weights ms = c'
      \<and> (\<forall>m m' k' k. map_of ms (pipeline m) = Some (m', k') \<longrightarrow>
            length (add_model ms m k) = length ms
            \<and> map_of (add_model ms m k) (pipeline m) = Some (m', k' + k))"
proof -
  from run_ops_invariant [OF assms(2)] assms(1)
  have i: "ens_inv e'" and t: "total_self e' = c'" by simp_all
  from i obtain ms where m: "self_models e' = Some ms" and w: "wms_inv ms"
    by (auto simp: ens_inv_def set_ok_def split: option.splits)
  from w have k: "keyed ms" by (simp add: wms_inv_def)
  from w have "distinct (map fst ms)" "\<forall>(p, (m, k)) \<in> set ms. p = pipeline m \<and> 1 \<le> k"
    by (auto simp: wms_inv_def keyed_def list_all_iff)
  moreover from t m have "total_model_weights ms = c'" by (simp add: total_self_def)
  moreover have "\<forall>m m' k' k. map_of ms (pipeline m) = Some (m', k') \<longrightarrow>
            length (add_model ms m k) = length ms
            \<and> map_of (add_model ms m k) (pipeline m) = Some (m', k' + k)"
    using length_add_model_present [OF k] by blast
  ultimately show ?thesis using m by blast
qed

theorem weighted_set_after_calls_witness:
  "ens_inv (sample_ensemble accuracy sample_library [] None)
   \<and> map_sum id (\<lambda>r. (self_models (fst (fst r)), snd r))
        (run_ops sample_world ((sample_ensemble accuracy sample_library [] None, []), 0)
           [Seed 2, Step_add 1])
       = Inr (Some [(0, (sample_model 0 [[0, 5]] 0, 1)),
                    (3, (sample_model 3 [[0, 1]] (7 / 10), 1)),
                    (2, (sample_model 2 [[0, 1]] (8 / 10), 1))], 3)
   \<and> total_model_weights [(0, (sample_model 0 [[0, 5]] 0, 1)),
                           (3, (sample_model 3 [[0, 1]] (7 / 10), 1)),
                           (2, (sample_model 2 [[0, 1]] (8 / 10), 1))] = 3"
proof -
  let ?e = "sample_ensemble accuracy sample_library [] None"
  let ?ms = "[(0, (sample_model 0 [[0, 5]] 0, 1)), (3, (sample_model 3 [[0, 1]] (7 / 10), 1)),
              (2, (sample_model 2 [[0, 1]] (8 / 10), 1))]"
  let ?run = "run_ops sample_world ((?e, []), 0) [Seed 2, Step_add 1]"
  have i: "ens_inv ?e"
    by (simp add: ens_inv_def set_ok_def wms_inv_empty sample_ensemble_def)
  have t0: "total_self ?e = 0"
    by (simp add: total_self_def total_empty sample_ensemble_def)
  have d: "map_sum id (\<lambda>r. (self_models (fst (fst r)), snd r)) ?run = Inr (Some ?ms, 3)"
    by (simp add: run_defs sample_defs array_defs numeral_2_eq_2)
  then obtain e' lg' where r: "?run = Inr ((e', lg'), 3)" and m: "self_models e' = Some ?ms"
    by (cases ?run) auto
  from weighted_set_after_calls [OF i r [folded t0]] m
  have "total_model_weights ?ms = 3" by auto
  with i d show ?thesis by simp
qed

end
